theory Spec2Isabelle
  imports Main
begin

section \<open>Utils: the permissions encoding (lib/utils.ts)\<close>

text \<open>
  \<^verbatim>\<open>Utils.numberToPermissionsString\<close> and \<^verbatim>\<open>Utils.permissionsStringToNumber\<close>
  convert between a scheme's permission bits (a JavaScript number) and the string
  \<^verbatim>\<open>0x\<close> followed by eight hexadecimal digits. The numbers the functions are used
  on are integers, modelled as \<open>int\<close>.
\<close>

definition hexChars :: string where
  "hexChars = ''0123456789abcdef''"

text \<open>
  \<^verbatim>\<open>n.toString(16)\<close> for a non-negative integer: the hexadecimal digits of \<open>n\<close>, most
  significant first, in lower case, without leading zeros; \<^verbatim>\<open>"0"\<close> for zero.
\<close>

function natToString16 :: "nat \<Rightarrow> string" where
  "natToString16 n =
     (if n < 16 then [hexChars ! n]
      else natToString16 (n div 16) @ [hexChars ! (n mod 16)])"
  by pat_completeness auto
termination
  by (relation "measure id") auto

declare natToString16.simps [simp del]

text \<open>\<^verbatim>\<open>Number.prototype.toString(16)\<close> on an integer: a negative number prints its sign.\<close>

definition toString16 :: "int \<Rightarrow> string" where
  "toString16 p = (if p < 0 then CHR ''-'' # natToString16 (nat (- p)) else natToString16 (nat p))"

text \<open>
  \<^verbatim>\<open>s.substr(-k)\<close>: the last \<open>k\<close> characters of \<open>s\<close>, the whole of \<open>s\<close> when it is
  shorter (the start index \<open>length s - k\<close> is clamped at 0, as the truncating
  subtraction of \<open>nat\<close> does).
\<close>

definition substr_from_end :: "nat \<Rightarrow> string \<Rightarrow> string" where
  "substr_from_end k s = drop (length s - k) s"

text \<open>
  \<^verbatim>\<open>
  public static numberToPermissionsString(permissions): string {
    if (!permissions) { permissions = SchemePermissions.None; }
    return `0x${("00000000" + (permissions as number).toString(16)).substr(-8)}`;
  }
  \<close>
  The enum \<^verbatim>\<open>SchemePermissions\<close> is declared in \<^verbatim>\<open>commonTypes\<close>, which is not among the
  sources; its member \<^verbatim>\<open>None\<close> is the parameter \<open>none\<close>. On a number, \<^verbatim>\<open>!permissions\<close>
  holds exactly for 0 (and NaN, which is not an integer).
\<close>

definition numberToPermissionsString :: "int \<Rightarrow> int \<Rightarrow> string" where
  "numberToPermissionsString none permissions =
     (let permissions' = (if permissions = 0 then none else permissions)
      in ''0x'' @ substr_from_end 8 (''00000000'' @ toString16 permissions'))"

text \<open>The value of one hexadecimal digit, in either case; \<open>None\<close> for any other character.\<close>

definition hexDigitValue :: "char \<Rightarrow> nat option" where
  "hexDigitValue c =
     (let k = (of_char c :: nat) in
      if 48 \<le> k \<and> k \<le> 57 then Some (k - 48)
      else if 97 \<le> k \<and> k \<le> 102 then Some (k - 87)
      else if 65 \<le> k \<and> k \<le> 70 then Some (k - 55)
      else None)"

text \<open>Reading a digit string in base \<open>b\<close>, most significant digit first; \<open>None\<close> when a
  character is not a digit of that base.\<close>

fun digitsValue :: "nat \<Rightarrow> nat \<Rightarrow> string \<Rightarrow> nat option" where
  "digitsValue b acc [] = Some acc"
| "digitsValue b acc (c # cs) =
     (case hexDigitValue c of
        None \<Rightarrow> None
      | Some d \<Rightarrow> if d < b then digitsValue b (acc * b + d) cs else None)"

text \<open>
  JavaScript's \<^verbatim>\<open>Number(s)\<close> on a string, for the two literal forms permission strings
  take: a hexadecimal integer literal (\<^verbatim>\<open>0x\<close> or \<^verbatim>\<open>0X\<close> and at least one hexadecimal
  digit) and a string of decimal digits. The result \<open>None\<close> stands for NaN; the other
  numeric literal forms of JavaScript (surrounding white space, signs, fractions, exponents,
  binary and octal prefixes, \<^verbatim>\<open>Infinity\<close>) are outside this model and also read as \<open>None\<close>.
\<close>

definition Number_of_string :: "string \<Rightarrow> int option" where
  "Number_of_string s =
     (case s of
        [] \<Rightarrow> Some 0
      | c0 # rest \<Rightarrow>
          (case rest of
             cx # ds \<Rightarrow>
               if c0 = CHR ''0'' \<and> (cx = CHR ''x'' \<or> cx = CHR ''X'') then
                 (if ds = [] then None else map_option int (digitsValue 16 0 ds))
               else map_option int (digitsValue 10 0 s)
           | [] \<Rightarrow> map_option int (digitsValue 10 0 s)))"

text \<open>
  \<^verbatim>\<open>
  public static permissionsStringToNumber(permissions: string): SchemePermissions {
    if (!permissions) { return 0; }
    return Number(permissions) as SchemePermissions;
  }
  \<close>
  On a string, \<^verbatim>\<open>!permissions\<close> holds exactly for the empty string.
\<close>

definition permissionsStringToNumber :: "string \<Rightarrow> int option" where
  "permissionsStringToNumber permissions =
     (if permissions = [] then Some 0 else Number_of_string permissions)"

section \<open>ConfigService: dotted settings (lib/configService.ts)\<close>

text \<open>
  \<^verbatim>\<open>ConfigService.data\<close> is the object read from \<^verbatim>\<open>config/default.json\<close>: a tree of plain
  objects with primitive values at the leaves. A plain object is the list of its own
  properties in creation order. Only own properties are modelled: the members inherited
  from \<^verbatim>\<open>Object.prototype\<close> (its methods and the accessor \<^verbatim>\<open>__proto__\<close>) and the
  characters and length of a string are not, so the model speaks of setting names other
  than those.
\<close>

datatype jsvalue =
    JUndefined
  | JNull
  | JBool bool
  | JNum int
  | JStr string
  | JObj "(string \<times> jsvalue) list"

datatype js_error = TypeError | Error string

text \<open>
  Writing a key of a property list, as an assignment \<^verbatim>\<open>o[k] = v\<close> and as \<^verbatim>\<open>Map.set\<close> do:
  an existing key keeps its place and takes the new value, a new key goes to the end.
\<close>

fun entries_set :: "'k \<Rightarrow> 'v \<Rightarrow> ('k \<times> 'v) list \<Rightarrow> ('k \<times> 'v) list" where
  "entries_set k v [] = [(k, v)]"
| "entries_set k v (e # es) = (if fst e = k then (k, v) # es else e # entries_set k v es)"









section \<open>ContractWrapperFactory: the wrapper cache (contractWrapperFactory.ts)\<close>

type_synonym Address = string

text \<open>
  A hydrated contract wrapper. The factory reads only its \<^verbatim>\<open>address\<close>. Every
  \<^verbatim>\<open>new this.wrapper(...)\<close> allocates a new object; \<open>objectId\<close> is the identity of that
  object, so that two wrappers are the same instance exactly when the records are equal.
\<close>

record ContractWrapper =
  address :: Address
  objectId :: nat

text \<open>
  The promise returned by \<^verbatim>\<open>getWrapper()\<close> (that is, by \<^verbatim>\<open>hydrateFromAt\<close>,
  \<^verbatim>\<open>hydrateFromDeployed\<close> or \<^verbatim>\<open>hydrateFromNew\<close>, which are not among the sources): it is
  rejected with an error, or resolved with a wrapper, or resolved with \<^verbatim>\<open>undefined\<close>
  (documented as "Returns undefined if not found").
\<close>

datatype hydration = Rejected js_error | Resolved "ContractWrapper option"

text \<open>
  The state the factory methods share: the static \<^verbatim>\<open>contractCache\<close>, a map keyed by
  contract name of maps keyed by address; the setting \<^verbatim>\<open>cacheContractWrappers\<close> read through
  \<^verbatim>\<open>configService.get\<close>; and \<open>hydrations\<close>, the number of times a hydrate function has been
  invoked so far. The outcome of a hydrate function is a function of that number, so that
  successive invocations can differ (and return distinct instances).
\<close>

record FactoryState =
  contractCache :: "string \<rightharpoonup> (Address \<rightharpoonup> ContractWrapper)"
  cacheContractWrappers :: bool
  hydrations :: nat

text \<open>A string or \<^verbatim>\<open>undefined\<close> is truthy unless it is \<^verbatim>\<open>undefined\<close> or the empty string.\<close>

definition truthy :: "Address option \<Rightarrow> bool" where
  "truthy a = (case a of None \<Rightarrow> False | Some s \<Rightarrow> s \<noteq> [])"

text \<open>
  \<^verbatim>\<open>
  private getCachedContract(name: string, at: string): IContractWrapper | undefined {
    if (!at) { return undefined; }
    const addressMap = ContractWrapperFactory.contractCache.get(name);
    if (!addressMap) { return undefined; }
    return addressMap.get(at);
  }
  \<close>
\<close>

definition getCachedContract ::
  "(string \<rightharpoonup> (Address \<rightharpoonup> ContractWrapper)) \<Rightarrow> string \<Rightarrow> Address option \<Rightarrow> ContractWrapper option" where
  "getCachedContract cache name at =
     (case at of
        None \<Rightarrow> None
      | Some a \<Rightarrow>
          if a = [] then None
          else (case cache name of None \<Rightarrow> None | Some addressMap \<Rightarrow> addressMap a))"

text \<open>
  \<^verbatim>\<open>
  private setCachedContract(name: string, wrapper: IContractWrapper): void {
    if (wrapper) {
      let addressMap = ContractWrapperFactory.contractCache.get(name);
      if (!addressMap) {
        addressMap = new Map<Address, IContractWrapper>();
        ContractWrapperFactory.contractCache.set(name, addressMap);
      }
      addressMap.set(wrapper.address, wrapper);
    }
  }
  \<close>
  The entry is stored under the wrapper's own address.
\<close>

definition setCachedContract ::
  "string \<Rightarrow> ContractWrapper option \<Rightarrow> (string \<rightharpoonup> (Address \<rightharpoonup> ContractWrapper))
     \<Rightarrow> (string \<rightharpoonup> (Address \<rightharpoonup> ContractWrapper))" where
  "setCachedContract name wrapper cache =
     (case wrapper of
        None \<Rightarrow> cache
      | Some w \<Rightarrow>
          (let addressMap = (case cache name of None \<Rightarrow> Map.empty | Some m \<Rightarrow> m)
           in cache(name \<mapsto> addressMap(address w \<mapsto> w))))"

text \<open>
  \<^verbatim>\<open>
  private async getHydratedWrapper(getWrapper, address?): Promise<TWrapper> {
    let hydratedWrapper: TWrapper;
    if (ContractWrapperFactory.configService.get("cacheContractWrappers")) {
      if (!address) {
        try { address = this.solidityContract.address; } catch { }
      }
      if (address) {
        hydratedWrapper = this.getCachedContract(this.solidityContractName, address) as TWrapper;
      }
      if (!hydratedWrapper) {
        hydratedWrapper = await getWrapper();
        if (hydratedWrapper) { this.setCachedContract(this.solidityContractName, hydratedWrapper); }
      }
    } else {
      hydratedWrapper = await getWrapper();
    }
    return hydratedWrapper;
  }
  \<close>
  An async function runs without interruption up to its first \<^verbatim>\<open>await\<close>, is suspended
  there, and runs on when the awaited promise settles. The method is therefore two steps.
  \<open>begin_lookup\<close> is the part before \<^verbatim>\<open>await getWrapper()\<close>: it reads the setting, consults
  the cache and, on a miss, invokes \<^verbatim>\<open>getWrapper\<close>. It ends either with the cached wrapper
  or suspended, remembering which invocation of the hydrate function it awaits and whether
  it is in the caching branch. \<open>finish_lookup\<close> is the part after the \<^verbatim>\<open>await\<close>.
  \<open>deployedAddress\<close> is the value of \<^verbatim>\<open>this.solidityContract.address\<close>, \<open>None\<close> when reading
  it throws or yields nothing.
\<close>

datatype lookup = Found ContractWrapper | Awaiting nat bool

definition begin_lookup ::
  "string \<Rightarrow> Address option \<Rightarrow> Address option \<Rightarrow> FactoryState \<Rightarrow> lookup \<times> FactoryState" where
  "begin_lookup name deployedAddress addr st =
     (if cacheContractWrappers st then
        (let addr' = (if \<not> truthy addr then deployedAddress else addr);
             hydratedWrapper =
               (if truthy addr' then getCachedContract (contractCache st) name addr' else None)
         in case hydratedWrapper of
              Some w \<Rightarrow> (Found w, st)
            | None \<Rightarrow> (Awaiting (hydrations st) True, st\<lparr>hydrations := hydrations st + 1\<rparr>))
      else (Awaiting (hydrations st) False, st\<lparr>hydrations := hydrations st + 1\<rparr>))"

definition finish_lookup ::
  "string \<Rightarrow> (nat \<Rightarrow> hydration) \<Rightarrow> lookup \<Rightarrow> FactoryState
     \<Rightarrow> (js_error + ContractWrapper option) \<times> FactoryState" where
  "finish_lookup name getWrapper lk st =
     (case lk of
        Found w \<Rightarrow> (Inr (Some w), st)
      | Awaiting n caching \<Rightarrow>
          (case getWrapper n of
             Rejected e \<Rightarrow> (Inl e, st)
           | Resolved hydratedWrapper \<Rightarrow>
               (Inr hydratedWrapper,
                if caching
                then st\<lparr>contractCache := setCachedContract name hydratedWrapper (contractCache st)\<rparr>
                else st)))"

text \<open>One call that runs to completion before anything else touches the state.\<close>

definition getHydratedWrapper ::
  "string \<Rightarrow> Address option \<Rightarrow> (nat \<Rightarrow> hydration) \<Rightarrow> Address option \<Rightarrow> FactoryState
     \<Rightarrow> (js_error + ContractWrapper option) \<times> FactoryState" where
  "getHydratedWrapper name deployedAddress getWrapper addr st =
     (let (lk, st1) = begin_lookup name deployedAddress addr st
      in finish_lookup name getWrapper lk st1)"

text \<open>
  Two calls for the same key of which the second begins before the hydration of the first
  has completed: both run their first step, then the two hydrations settle and the calls
  finish, the first one first.
\<close>

definition overlapping_lookups ::
  "string \<Rightarrow> Address option \<Rightarrow> (nat \<Rightarrow> hydration) \<Rightarrow> Address option \<Rightarrow> FactoryState
     \<Rightarrow> (js_error + ContractWrapper option) \<times> (js_error + ContractWrapper option) \<times> FactoryState" where
  "overlapping_lookups name deployedAddress getWrapper addr st =
     (let (lk1, st1) = begin_lookup name deployedAddress addr st;
          (lk2, st2) = begin_lookup name deployedAddress addr st1;
          (r1, st3) = finish_lookup name getWrapper lk1 st2;
          (r2, st4) = finish_lookup name getWrapper lk2 st3
      in (r1, r2, st4))"

text \<open>Two calls for the same key of which the second begins after the first has returned.\<close>

definition successive_lookups ::
  "string \<Rightarrow> Address option \<Rightarrow> (nat \<Rightarrow> hydration) \<Rightarrow> Address option \<Rightarrow> FactoryState
     \<Rightarrow> (js_error + ContractWrapper option) \<times> (js_error + ContractWrapper option) \<times> FactoryState" where
  "successive_lookups name deployedAddress getWrapper addr st =
     (let (r1, st1) = getHydratedWrapper name deployedAddress getWrapper addr st;
          (r2, st2) = getHydratedWrapper name deployedAddress getWrapper addr st1
      in (r1, r2, st2))"

text \<open>
  \<^verbatim>\<open>
  public async new(...rest: Array<any>): Promise<TWrapper> {
    await this.ensureSolidityContract();
    ... (gas estimation, which only changes the arguments passed on)
    const hydratedWrapper =
      await new this.wrapper(this.solidityContract, this.web3EventService).hydrateFromNew(...rest);
    if (hydratedWrapper && ContractWrapperFactory.configService.get("cacheContractWrappers")) {
      this.setCachedContract(this.solidityContractName, hydratedWrapper);
    }
    return hydratedWrapper;
  }
  \<close>
  The part after the contract has been loaded; \<open>hydrateFromNew\<close> plays the part of
  \<^verbatim>\<open>getWrapper\<close>.
\<close>

definition factory_new ::
  "string \<Rightarrow> (nat \<Rightarrow> hydration) \<Rightarrow> FactoryState \<Rightarrow> (js_error + ContractWrapper option) \<times> FactoryState" where
  "factory_new name hydrateFromNew st =
     (let st1 = st\<lparr>hydrations := hydrations st + 1\<rparr>
      in case hydrateFromNew (hydrations st) of
           Rejected e \<Rightarrow> (Inl e, st1)
         | Resolved hydratedWrapper \<Rightarrow>
             (Inr hydratedWrapper,
              if hydratedWrapper \<noteq> None \<and> cacheContractWrappers st1
              then st1\<lparr>contractCache := setCachedContract name hydratedWrapper (contractCache st1)\<rparr>
              else st1))"

text \<open>
  Concrete inputs used below: the state after \<^verbatim>\<open>clearContractCache\<close> with the setting on or
  off; a hydrate function that succeeds every time with a new wrapper object at the given
  address; and one whose first invocation is rejected.
\<close>

definition initial_state :: "bool \<Rightarrow> FactoryState" where
  "initial_state caching =
     \<lparr>contractCache = Map.empty, cacheContractWrappers = caching, hydrations = 0\<rparr>"

definition fresh_wrapper_at :: "Address \<Rightarrow> nat \<Rightarrow> hydration" where
  "fresh_wrapper_at a n = Resolved (Some \<lparr>address = a, objectId = n\<rparr>)"

definition fails_first_at :: "Address \<Rightarrow> nat \<Rightarrow> hydration" where
  "fails_first_at a n =
     (if n = 0 then Rejected (Error ''no code at address'') else fresh_wrapper_at a n)"

section \<open>DAO: discovery of registered schemes and global constraints (lib/dao.ts)\<close>

type_synonym Hash = string

text \<open>
  The controller contract of a DAO, as the discovery routines use it: the events it has
  emitted since block 0, oldest first, and the reads of its present state, asked with the
  DAO's avatar (\<^verbatim>\<open>isSchemeRegistered\<close>, \<^verbatim>\<open>getSchemePermissions\<close>,
  \<^verbatim>\<open>isGlobalConstraintRegistered\<close>). The reads are taken to succeed.
\<close>

datatype controller_event =
    RegisterScheme Address
  | UnregisterScheme Address
  | AddGlobalConstraint Address Hash
  | RemoveGlobalConstraint Address

record Controller =
  events :: "controller_event list"
  isSchemeRegistered :: "Address \<Rightarrow> bool"
  getSchemePermissions :: "Address \<Rightarrow> string"
  isGlobalConstraintRegistered :: "Address \<Rightarrow> bool"

text \<open>The decoded arguments of the two events that are fetched.\<close>

record RegisterSchemeArgs =
  arg_scheme :: Address

record AddGlobalConstraintArgs =
  arg_globalConstraint :: Address
  arg_params :: Hash

text \<open>
  \<^verbatim>\<open>controller.RegisterScheme({}, { fromBlock: 0, toBlock: "latest" })\<close> and
  \<^verbatim>\<open>controller.AddGlobalConstraint({}, { fromBlock: 0, toBlock: "latest" })\<close>: the log
  entries of that one event, in the order of the log.
\<close>

fun RegisterScheme_logs :: "controller_event list \<Rightarrow> RegisterSchemeArgs list" where
  "RegisterScheme_logs [] = []"
| "RegisterScheme_logs (RegisterScheme a # es) = \<lparr>arg_scheme = a\<rparr> # RegisterScheme_logs es"
| "RegisterScheme_logs (e # es) = RegisterScheme_logs es"

fun AddGlobalConstraint_logs :: "controller_event list \<Rightarrow> AddGlobalConstraintArgs list" where
  "AddGlobalConstraint_logs [] = []"
| "AddGlobalConstraint_logs (AddGlobalConstraint a h # es) =
     \<lparr>arg_globalConstraint = a, arg_params = h\<rparr> # AddGlobalConstraint_logs es"
| "AddGlobalConstraint_logs (e # es) = AddGlobalConstraint_logs es"

text \<open>
  What the callback of \<^verbatim>\<open>event.get\<close> receives as \<^verbatim>\<open>log\<close>: an array of entries, a single
  entry, or \<^verbatim>\<open>undefined\<close> (when the fetch failed and only \<^verbatim>\<open>err\<close> is set).
\<close>

datatype 'a fetched = LogArray "'a list" | LogSingle 'a | LogUndefined

text \<open>
  \<^verbatim>\<open>if (!Array.isArray(log)) { log = [log]; }\<close>: the entries the loop visits. An entry that
  is \<^verbatim>\<open>undefined\<close> is \<open>None\<close>.
\<close>

fun as_array :: "'a fetched \<Rightarrow> 'a option list" where
  "as_array (LogArray es) = map Some es"
| "as_array (LogSingle e) = [Some e]"
| "as_array LogUndefined = [None]"

record 'p DaoSchemeInfo =
  info_address :: Address
  info_name :: "string option"
  info_permissions :: 'p

record DaoGlobalConstraintInfo =
  gc_address :: Address
  gc_name :: "string option"
  gc_paramsHash :: Hash

text \<open>
  \<^verbatim>\<open>
  for (const name in wrapperService.allWrappers) {
    const contract = wrapperService.allWrappers[name];
    arcTypesMap.set(contract.address, name);
  }
  \<close>
  \<^verbatim>\<open>allWrappers\<close> (of \<^verbatim>\<open>WrapperService\<close>, not among the sources) is given as the list of
  its names with the address of each wrapper. A \<^verbatim>\<open>Map\<close> is the list of its entries in
  insertion order.
\<close>

fun arcTypesMap_of :: "(string \<times> Address) list \<Rightarrow> (Address \<times> string) list \<Rightarrow> (Address \<times> string) list" where
  "arcTypesMap_of [] arcTypesMap = arcTypesMap"
| "arcTypesMap_of ((name, contractAddress) # rest) arcTypesMap =
     arcTypesMap_of rest (entries_set contractAddress name arcTypesMap)"

text \<open>
  \<^verbatim>\<open>
  public async _handleSchemeEvent(log, arcTypesMap, schemesMap): Promise<void> {
    if (!Array.isArray(log)) { log = [log]; }
    const count = log.length;
    for (let i = 0; i < count; i++) {
      const schemeAddress = log[i].args._scheme;
      // will be all zeros if not registered
      const permissions = await this.controller.getSchemePermissions(schemeAddress, this.avatar.address);
      const schemeInfo = {
        address: schemeAddress,
        // will be undefined if not a known scheme
        name: arcTypesMap.get(schemeAddress),
        permissions: SchemePermissions.fromString(permissions),
      };
      // dedup
      schemesMap.set(schemeAddress, schemeInfo);
    }
  }
  \<close>
  \<^verbatim>\<open>SchemePermissions.fromString\<close> (of \<^verbatim>\<open>commonTypes\<close>, not among the sources) is the
  parameter \<open>fromString\<close>. Reading \<^verbatim>\<open>args\<close> of an entry that is \<^verbatim>\<open>undefined\<close> throws a
  TypeError.
\<close>

fun handleSchemeEvent ::
  "Controller \<Rightarrow> (string \<Rightarrow> 'p) \<Rightarrow> RegisterSchemeArgs option list \<Rightarrow> (Address \<times> string) list
     \<Rightarrow> (Address \<times> 'p DaoSchemeInfo) list \<Rightarrow> js_error + (Address \<times> 'p DaoSchemeInfo) list" where
  "handleSchemeEvent controller fromString [] arcTypesMap schemesMap = Inr schemesMap"
| "handleSchemeEvent controller fromString (None # rest) arcTypesMap schemesMap = Inl TypeError"
| "handleSchemeEvent controller fromString (Some entry # rest) arcTypesMap schemesMap =
     (let schemeAddress = arg_scheme entry;
          permissions = getSchemePermissions controller schemeAddress;
          schemeInfo = \<lparr>info_address = schemeAddress,
                        info_name = map_of arcTypesMap schemeAddress,
                        info_permissions = fromString permissions\<rparr>
      in handleSchemeEvent controller fromString rest arcTypesMap
           (entries_set schemeAddress schemeInfo schemesMap))"

text \<open>
  How an async method ends: it returns a value, it throws, or its promise never settles.
\<close>

datatype 'a settled = Returns 'a | Throws js_error | NeverSettles

text \<open>
  \<^verbatim>\<open>
  public async _getSchemes(): Promise<Array<DaoSchemeInfo>> {
    const schemesMap = new Map<string, DaoSchemeInfo>();
    ...
    const registerSchemeEvent = controller.RegisterScheme({}, { fromBlock: 0, toBlock: "latest" });
    await new Promise((resolve: fnVoid): void => {
      registerSchemeEvent.get((err, log) =>
        this._handleSchemeEvent(log, arcTypesMap, schemesMap).then((): void => { resolve(); }));
    });
    const registeredSchemes = [];
    for (const scheme of schemesMap.values()) {
      if (await controller.isSchemeRegistered(scheme.address, avatar.address)) {
        registeredSchemes.push(scheme);
      }
    }
    return registeredSchemes;
  }
  \<close>
  \<open>getSchemes_from\<close> is the method from the moment the callback receives \<^verbatim>\<open>log\<close>. When
  \<^verbatim>\<open>_handleSchemeEvent\<close> throws, its promise is rejected, \<^verbatim>\<open>resolve\<close> is never called and
  the awaited promise never settles. \<open>getSchemes_all\<close> is \<^verbatim>\<open>_getSchemes\<close> with a fetch
  that delivers the array of the \<^verbatim>\<open>RegisterScheme\<close> entries.
\<close>

definition getSchemes_from ::
  "(string \<times> Address) list \<Rightarrow> Controller \<Rightarrow> (string \<Rightarrow> 'p) \<Rightarrow> RegisterSchemeArgs fetched
     \<Rightarrow> 'p DaoSchemeInfo list settled" where
  "getSchemes_from allWrappers controller fromString log =
     (let arcTypesMap = arcTypesMap_of allWrappers []
      in case handleSchemeEvent controller fromString (as_array log) arcTypesMap [] of
           Inl e \<Rightarrow> NeverSettles
         | Inr schemesMap \<Rightarrow>
             Returns (filter (\<lambda>scheme. isSchemeRegistered controller (info_address scheme))
                        (map snd schemesMap)))"

definition getSchemes_all ::
  "(string \<times> Address) list \<Rightarrow> Controller \<Rightarrow> (string \<Rightarrow> 'p) \<Rightarrow> 'p DaoSchemeInfo list settled" where
  "getSchemes_all allWrappers controller fromString =
     getSchemes_from allWrappers controller fromString
       (LogArray (RegisterScheme_logs (events controller)))"

text \<open>
  \<^verbatim>\<open>
  public async _handleConstraintEvent(log, arcTypesMap, constraintsMap): Promise<void> {
    if (!Array.isArray(log)) { log = [log]; }
    const count = log.length;
    for (let i = 0; i < count; i++) {
      const address = log[i].args._globalConstraint;
      const paramsHash = log[i].args._params;
      const info = {
        address,
        // will be undefined if not a known scheme
        name: arcTypesMap.get(address),
        paramsHash,
      };
      // dedup
      constraintsMap.set(address, info);
    }
  }
  \<close>
\<close>

fun handleConstraintEvent ::
  "AddGlobalConstraintArgs option list \<Rightarrow> (Address \<times> string) list
     \<Rightarrow> (Address \<times> DaoGlobalConstraintInfo) list \<Rightarrow> js_error + (Address \<times> DaoGlobalConstraintInfo) list" where
  "handleConstraintEvent [] arcTypesMap constraintsMap = Inr constraintsMap"
| "handleConstraintEvent (None # rest) arcTypesMap constraintsMap = Inl TypeError"
| "handleConstraintEvent (Some entry # rest) arcTypesMap constraintsMap =
     (let addr = arg_globalConstraint entry;
          paramsHash = arg_params entry;
          info = \<lparr>gc_address = addr, gc_name = map_of arcTypesMap addr, gc_paramsHash = paramsHash\<rparr>
      in handleConstraintEvent rest arcTypesMap (entries_set addr info constraintsMap))"

text \<open>
  \<^verbatim>\<open>_getConstraints\<close> has the shape of \<^verbatim>\<open>_getSchemes\<close>: it fetches the
  \<^verbatim>\<open>AddGlobalConstraint\<close> entries, folds them with \<^verbatim>\<open>_handleConstraintEvent\<close> and keeps the
  constraints for which \<^verbatim>\<open>controller.isGlobalConstraintRegistered(gc.address, avatar.address)\<close>
  holds.
\<close>

definition getConstraints_from ::
  "(string \<times> Address) list \<Rightarrow> Controller \<Rightarrow> AddGlobalConstraintArgs fetched
     \<Rightarrow> DaoGlobalConstraintInfo list settled" where
  "getConstraints_from allWrappers controller log =
     (let arcTypesMap = arcTypesMap_of allWrappers []
      in case handleConstraintEvent (as_array log) arcTypesMap [] of
           Inl e \<Rightarrow> NeverSettles
         | Inr constraintsMap \<Rightarrow>
             Returns (filter (\<lambda>gc. isGlobalConstraintRegistered controller (gc_address gc))
                        (map snd constraintsMap)))"

definition getConstraints_all ::
  "(string \<times> Address) list \<Rightarrow> Controller \<Rightarrow> DaoGlobalConstraintInfo list settled" where
  "getConstraints_all allWrappers controller =
     getConstraints_from allWrappers controller
       (LogArray (AddGlobalConstraint_logs (events controller)))"

text \<open>
  \<^verbatim>\<open>
  public async getSchemes(name: string): Promise<Array<DaoSchemeInfo>> {
    const schemes = await this._getSchemes();
    if (name) { return schemes.filter((s: DaoSchemeInfo) => s.name === name); }
    else { return schemes; }
  }
  \<close>
\<close>

definition getSchemes ::
  "(string \<times> Address) list \<Rightarrow> Controller \<Rightarrow> (string \<Rightarrow> 'p) \<Rightarrow> string option
     \<Rightarrow> 'p DaoSchemeInfo list settled" where
  "getSchemes allWrappers controller fromString name =
     (case getSchemes_all allWrappers controller fromString of
        Returns schemes \<Rightarrow>
          (if truthy name then Returns (filter (\<lambda>s. info_name s = name) schemes)
           else Returns schemes)
      | other \<Rightarrow> other)"

text \<open>The object literal built for one log entry, in each of the two loops.\<close>

definition schemeInfo_of ::
  "Controller \<Rightarrow> (string \<Rightarrow> 'p) \<Rightarrow> (Address \<times> string) list \<Rightarrow> Address \<Rightarrow> 'p DaoSchemeInfo" where
  "schemeInfo_of controller fromString arcTypesMap a =
     \<lparr>info_address = a, info_name = map_of arcTypesMap a,
      info_permissions = fromString (getSchemePermissions controller a)\<rparr>"

definition constraintInfo_of ::
  "(Address \<times> string) list \<Rightarrow> AddGlobalConstraintArgs \<Rightarrow> DaoGlobalConstraintInfo" where
  "constraintInfo_of arcTypesMap entry =
     \<lparr>gc_address = arg_globalConstraint entry,
      gc_name = map_of arcTypesMap (arg_globalConstraint entry),
      gc_paramsHash = arg_params entry\<rparr>"

text \<open>
  Concrete controllers used below: one whose log is register(A), register(B),
  deregister(A), with A no longer registered and B registered; and one with no history.
\<close>

definition example_controller :: Controller where
  "example_controller =
     \<lparr>events = [RegisterScheme ''0xA'', RegisterScheme ''0xB'', UnregisterScheme ''0xA''],
      isSchemeRegistered = (\<lambda>a. a = ''0xB''),
      getSchemePermissions = (\<lambda>a. if a = ''0xB'' then ''0x00000001'' else ''0x00000000''),
      isGlobalConstraintRegistered = (\<lambda>a. False)\<rparr>"

definition new_controller :: Controller where
  "new_controller =
     \<lparr>events = [],
      isSchemeRegistered = (\<lambda>a. False),
      getSchemePermissions = (\<lambda>a. ''0x00000000''),
      isGlobalConstraintRegistered = (\<lambda>a. False)\<rparr>"

section \<open>ContractWrapperFactory.at and DAO.new\<close>

text \<open>
  What \<^verbatim>\<open>DAO.new\<close> and the methods it calls do, in order, as far as the outside can
  see: loading a contract (\<^verbatim>\<open>Utils.requireContract\<close>, which asks the node for the
  accounts), hydrating a wrapper from the chain, publishing the kickoff event, creating the
  event context, sending the two transactions, and reading the new DAO.
\<close>

record NewDaoConfig =
  daoCreatorAddress :: "Address option"
  schemes :: "string list option"
  txEventStack :: "string option"

datatype action =
    RequireContract string
  | Hydrate string Address
  | PublishKickoffEvent string NewDaoConfig nat
  | NewTxEventContext string
  | SendForgeOrg NewDaoConfig
  | SendSetSchemes Address NewDaoConfig
  | ReadDao Address

fun is_network_call :: "action \<Rightarrow> bool" where
  "is_network_call (RequireContract contractName) = True"
| "is_network_call (Hydrate contractName a) = True"
| "is_network_call (PublishKickoffEvent functionName opts n) = False"
| "is_network_call (NewTxEventContext functionName) = False"
| "is_network_call (SendForgeOrg opts) = True"
| "is_network_call (SendSetSchemes a opts) = True"
| "is_network_call (ReadDao a) = True"

fun sends_transaction :: "action \<Rightarrow> bool" where
  "sends_transaction (SendForgeOrg opts) = True"
| "sends_transaction (SendSetSchemes a opts) = True"
| "sends_transaction other = False"

fun is_kickoff :: "action \<Rightarrow> bool" where
  "is_kickoff (PublishKickoffEvent functionName opts n) = True"
| "is_kickoff other = False"

text \<open>
  The Truffle contract a factory loads on first use; \<open>contractAddress\<close> is its
  \<^verbatim>\<open>address\<close>, \<open>None\<close> when reading it throws because the contract is not deployed.
\<close>

record TruffleContract =
  contractAddress :: "Address option"

record Factory =
  solidityContractName :: string
  solidityContract :: "TruffleContract option"

text \<open>
  \<^verbatim>\<open>
  public async ensureSolidityContract(): Promise<any> {
    if (!this.solidityContract) {
      this.solidityContract = await Utils.requireContract(this.solidityContractName);
    }
    return this.solidityContract;
  }
  \<close>
  \<open>requireContract\<close> is the outcome of \<^verbatim>\<open>Utils.requireContract\<close>, which throws when it
  cannot load the contract.
\<close>

definition ensureSolidityContract ::
  "(string \<Rightarrow> js_error + TruffleContract) \<Rightarrow> Factory
     \<Rightarrow> (js_error + TruffleContract) \<times> Factory \<times> action list" where
  "ensureSolidityContract requireContract factory =
     (case solidityContract factory of
        Some c \<Rightarrow> (Inr c, factory, [])
      | None \<Rightarrow>
          (case requireContract (solidityContractName factory) of
             Inl e \<Rightarrow> (Inl e, factory, [RequireContract (solidityContractName factory)])
           | Inr c \<Rightarrow> (Inr c, factory\<lparr>solidityContract := Some c\<rparr>,
                       [RequireContract (solidityContractName factory)])))"

text \<open>
  \<^verbatim>\<open>
  public async at(address: string): Promise<TWrapper> {
    await this.ensureSolidityContract();
    const getWrapper = (): Promise<TWrapper> => {
      return new this.wrapper(this.solidityContract, this.web3EventService).hydrateFromAt(address);
    };
    return this.getHydratedWrapper(getWrapper, address);
  }
  \<close>
  \<open>hydrateFromAt a\<close> is the hydrate function for the address \<open>a\<close>. The actions record a
  hydration when \<^verbatim>\<open>getWrapper\<close> was invoked.
\<close>

definition factory_at ::
  "(string \<Rightarrow> js_error + TruffleContract) \<Rightarrow> (Address \<Rightarrow> nat \<Rightarrow> hydration) \<Rightarrow> Factory \<Rightarrow> Address
     \<Rightarrow> FactoryState \<Rightarrow> (js_error + ContractWrapper option) \<times> Factory \<times> FactoryState \<times> action list" where
  "factory_at requireContract hydrateFromAt factory a st =
     (case ensureSolidityContract requireContract factory of
        (Inl e, factory', acts) \<Rightarrow> (Inl e, factory', st, acts)
      | (Inr c, factory', acts) \<Rightarrow>
          (let (r, st') = getHydratedWrapper (solidityContractName factory') (contractAddress c)
                            (hydrateFromAt a) (Some a) st
           in (r, factory', st',
               acts @ (if hydrations st < hydrations st'
                       then [Hydrate (solidityContractName factory') a] else []))))"

text \<open>
  The parts of \<^verbatim>\<open>DAO.new\<close> that are not among the sources, as parameters: the wrapper
  \<^verbatim>\<open>WrapperService.wrappers.DaoCreator\<close>; the two estimators of \<^verbatim>\<open>DaoCreatorWrapper\<close>; the
  outcome of \<^verbatim>\<open>forgeOrg\<close> followed by \<^verbatim>\<open>watchForTxMined\<close>, with the avatar address that
  \<^verbatim>\<open>getValueFromLogs(result, "_avatar", "NewOrg")\<close> finds in it; the outcome of
  \<^verbatim>\<open>setSchemes\<close> followed by \<^verbatim>\<open>watchForTxMined\<close>; and \<^verbatim>\<open>DAO.at\<close>.
\<close>

record 'dao DaoNewEnv =
  deployedDaoCreator :: "ContractWrapper option"
  forgeOrgTransactionsCount :: "NewDaoConfig \<Rightarrow> nat"
  setSchemesTransactionsCount :: "NewDaoConfig \<Rightarrow> nat"
  forgeOrg :: "NewDaoConfig \<Rightarrow> js_error + Address option"
  setSchemes :: "Address \<Rightarrow> NewDaoConfig \<Rightarrow> js_error + unit"
  DAO_at :: "Address \<Rightarrow> 'dao option"

text \<open>
  \<^verbatim>\<open>
  public static async new(options: NewDaoConfig): Promise<DAO> {
    let daoCreator: DaoCreatorWrapper;
    if (options.daoCreatorAddress) {
      daoCreator = await DaoCreatorFactory.at(options.daoCreatorAddress);
    } else {
      daoCreator = WrapperService.wrappers.DaoCreator;
    }
    const payload = TransactionService.publishKickoffEvent(
      "DAO.new",
      options,
      daoCreator.forgeOrgTransactionsCount(options) + daoCreator.setSchemesTransactionsCount(options)
    );
    const eventContext = TransactionService.newTxEventContext("DAO.new", payload, options);
    options.txEventStack = eventContext;
    const result = await (await daoCreator.forgeOrg(options)).watchForTxMined();
    const avatarAddress = TransactionService.getValueFromLogs(result, "_avatar", "NewOrg");
    if (!avatarAddress) { throw new Error("avatar address is not defined"); }
    options.txEventStack = eventContext;
    await (await daoCreator.setSchemes(Object.assign({ avatar: avatarAddress }, options))).watchForTxMined();
    return DAO.at(avatarAddress);
  }
  \<close>
  The first step: the wrapper of the DaoCreator to use. Calling a method of a wrapper that
  is \<^verbatim>\<open>undefined\<close> throws a TypeError.
\<close>

definition DAO_new_daoCreator ::
  "'dao DaoNewEnv \<Rightarrow> (string \<Rightarrow> js_error + TruffleContract) \<Rightarrow> (Address \<Rightarrow> nat \<Rightarrow> hydration)
     \<Rightarrow> Factory \<Rightarrow> NewDaoConfig \<Rightarrow> FactoryState
     \<Rightarrow> (js_error + ContractWrapper option) \<times> Factory \<times> FactoryState \<times> action list" where
  "DAO_new_daoCreator env requireContract hydrateFromAt daoCreatorFactory opts st =
     (case daoCreatorAddress opts of
        None \<Rightarrow> (Inr (deployedDaoCreator env), daoCreatorFactory, st, [])
      | Some a \<Rightarrow>
          if a = [] then (Inr (deployedDaoCreator env), daoCreatorFactory, st, [])
          else factory_at requireContract hydrateFromAt daoCreatorFactory a st)"

text \<open>The steps from the kickoff on, once the DaoCreator wrapper is there.\<close>

definition DAO_new_steps :: "'dao DaoNewEnv \<Rightarrow> NewDaoConfig \<Rightarrow> 'dao option settled \<times> action list" where
  "DAO_new_steps env opts =
     (let count = forgeOrgTransactionsCount env opts + setSchemesTransactionsCount env opts;
          started = [PublishKickoffEvent ''DAO.new'' opts count, NewTxEventContext ''DAO.new''];
          opts' = opts\<lparr>txEventStack := Some ''DAO.new''\<rparr>
      in case forgeOrg env opts' of
           Inl e \<Rightarrow> (Throws e, started @ [SendForgeOrg opts'])
         | Inr avatarAddress \<Rightarrow>
             if \<not> truthy avatarAddress
             then (Throws (Error ''avatar address is not defined''), started @ [SendForgeOrg opts'])
             else (case setSchemes env (the avatarAddress) opts' of
                     Inl e \<Rightarrow>
                       (Throws e, started @ [SendForgeOrg opts', SendSetSchemes (the avatarAddress) opts'])
                   | Inr u \<Rightarrow>
                       (Returns (DAO_at env (the avatarAddress)),
                        started @ [SendForgeOrg opts', SendSetSchemes (the avatarAddress) opts',
                                   ReadDao (the avatarAddress)])))"

definition DAO_new ::
  "'dao DaoNewEnv \<Rightarrow> (string \<Rightarrow> js_error + TruffleContract) \<Rightarrow> (Address \<Rightarrow> nat \<Rightarrow> hydration)
     \<Rightarrow> Factory \<Rightarrow> NewDaoConfig \<Rightarrow> FactoryState \<Rightarrow> 'dao option settled \<times> action list" where
  "DAO_new env requireContract hydrateFromAt daoCreatorFactory opts st =
     (case DAO_new_daoCreator env requireContract hydrateFromAt daoCreatorFactory opts st of
        (Inl e, factory', st', acts) \<Rightarrow> (Throws e, acts)
      | (Inr None, factory', st', acts) \<Rightarrow> (Throws TypeError, acts)
      | (Inr (Some daoCreator), factory', st', acts) \<Rightarrow>
          (let (outcome, acts') = DAO_new_steps env opts in (outcome, acts @ acts')))"

text \<open>
  Concrete inputs used below: the DaoCreator factory with its contract loaded; a
  DaoCreator at \<^verbatim>\<open>0xdc\<close>; estimators that count one transaction for \<^verbatim>\<open>forgeOrg\<close> and, for
  \<^verbatim>\<open>setSchemes\<close>, two for each scheme and one more (six in all for two schemes, the
  count the test of \<^verbatim>\<open>DAO.new\<close> expects); transactions that are mined; and the options
  of a call with two schemes, without and with \<^verbatim>\<open>daoCreatorAddress\<close>.
\<close>

definition loaded_factory :: Factory where
  "loaded_factory =
     \<lparr>solidityContractName = ''DaoCreator'',
      solidityContract = Some \<lparr>contractAddress = Some ''0xd0''\<rparr>\<rparr>"

definition example_env :: "Address DaoNewEnv" where
  "example_env =
     \<lparr>deployedDaoCreator = Some \<lparr>address = ''0xd0'', objectId = 0\<rparr>,
      forgeOrgTransactionsCount = (\<lambda>opts. 1),
      setSchemesTransactionsCount =
        (\<lambda>opts. case schemes opts of None \<Rightarrow> 1 | Some ss \<Rightarrow> 2 * length ss + 1),
      forgeOrg = (\<lambda>opts. Inr (Some ''0xaa'')),
      setSchemes = (\<lambda>a opts. Inr ()),
      DAO_at = (\<lambda>a. Some a)\<rparr>"

definition contract_loads :: "string \<Rightarrow> js_error + TruffleContract" where
  "contract_loads contractName = Inr \<lparr>contractAddress = Some ''0xd0''\<rparr>"

definition two_schemes :: NewDaoConfig where
  "two_schemes =
     \<lparr>daoCreatorAddress = None, schemes = Some [''SchemeRegistrar'', ''UpgradeScheme''],
      txEventStack = None\<rparr>"

definition two_schemes_other_creator :: NewDaoConfig where
  "two_schemes_other_creator =
     \<lparr>daoCreatorAddress = Some ''0xdc'', schemes = Some [''SchemeRegistrar'', ''UpgradeScheme''],
      txEventStack = None\<rparr>"

section \<open>The notifications of DAO.new, as the test observes them (test/transactionService.js)\<close>











section \<open>WrapperService: the directory of deployed wrappers\<close>










section \<open>Properties of the permissions encoding\<close>

lemma hexDigitValue_hexChars: "d < 16 \<Longrightarrow> hexDigitValue (hexChars ! d) = Some d"
proof -
  assume "d < 16"
  then have "d \<in> set [0..<16]" by simp
  also have "[0..<16] = [0, 1, 2, 3, 4, 5, 6, 7, 8, 9, 10, 11, 12, 13, 14, 15::nat]"
    by (simp add: upt_rec)
  finally show ?thesis
    by (auto simp: hexChars_def hexDigitValue_def)
qed

lemma digitsValue_append:
  "digitsValue b acc (xs @ ys) =
     (case digitsValue b acc xs of None \<Rightarrow> None | Some a \<Rightarrow> digitsValue b a ys)"
  by (induction xs arbitrary: acc) (auto split: option.splits)

lemma digitsValue_natToString16: "digitsValue 16 0 (natToString16 n) = Some n"
proof (induction n rule: natToString16.induct)
  case (1 n)
  show ?case
  proof (cases "n < 16")
    case True
    then show ?thesis
      by (subst natToString16.simps) (simp add: hexDigitValue_hexChars)
  next
    case False
    have m: "n mod 16 < 16" by simp
    from False 1 have ih: "digitsValue 16 0 (natToString16 (n div 16)) = Some (n div 16)" by simp
    show ?thesis
      by (subst natToString16.simps) (simp add: False digitsValue_append ih hexDigitValue_hexChars [OF m])
  qed
qed

lemma length_natToString16: "n < 16 ^ k \<Longrightarrow> 0 < k \<Longrightarrow> length (natToString16 n) \<le> k"
proof (induction n arbitrary: k rule: natToString16.induct)
  case (1 n)
  show ?case
  proof (cases "n < 16")
    case True
    then show ?thesis using "1.prems" by (subst natToString16.simps) simp
  next
    case False
    with "1.prems" obtain j where k: "k = Suc j" by (cases k) auto
    from False "1.prems" k have j0: "0 < j" by (cases j) auto
    from "1.prems" k have "n div 16 < 16 ^ j"
      by (simp add: less_mult_imp_div_less mult.commute)
    with 1(1) [OF False _ j0] have "length (natToString16 (n div 16)) \<le> j" by simp
    then show ?thesis using False k by (subst natToString16.simps) simp
  qed
qed

lemma hexdigits_natToString16: "c \<in> set (natToString16 n) \<Longrightarrow> hexDigitValue c \<noteq> None"
proof (induction n rule: natToString16.induct)
  case (1 n)
  show ?case
  proof (cases "n < 16")
    case True
    with "1.prems" have "c = hexChars ! n" by (subst (asm) natToString16.simps) simp
    then show ?thesis using hexDigitValue_hexChars [OF True] by simp
  next
    case False
    have m: "n mod 16 < 16" by simp
    from "1.prems" False have "c \<in> set (natToString16 (n div 16)) \<or> c = hexChars ! (n mod 16)"
      by (subst (asm) natToString16.simps) auto
    then show ?thesis using 1(1) [OF False] hexDigitValue_hexChars [OF m] by auto
  qed
qed

lemma digitsValue_zeros: "digitsValue 16 0 (replicate k CHR ''0'' @ ds) = digitsValue 16 0 ds"
  by (induction k) (simp_all add: hexDigitValue_def)

lemma substr_pad:
  "length h \<le> 8 \<Longrightarrow> substr_from_end 8 (''00000000'' @ h) = replicate (8 - length h) CHR ''0'' @ h"
proof -
  assume h: "length h \<le> 8"
  have z: "''00000000'' = replicate 8 CHR ''0''" by (simp add: numeral_eq_Suc)
  show ?thesis unfolding substr_from_end_def z using h by simp
qed


lemma Number_of_string_hex:
  "ds \<noteq> [] \<Longrightarrow> Number_of_string (''0x'' @ ds) = map_option int (digitsValue 16 0 ds)"
  by (cases ds) (simp_all add: Number_of_string_def)

lemma toString16_nonneg: "0 \<le> p \<Longrightarrow> toString16 p = natToString16 (nat p)"
  by (simp add: toString16_def)

lemma numberToPermissionsString_eq:
  assumes "0 \<le> p" and "p < 2 ^ 32"
  shows "numberToPermissionsString 0 p =
           ''0x'' @ replicate (8 - length (natToString16 (nat p))) CHR ''0'' @ natToString16 (nat p)"
proof -
  have "nat p < 16 ^ 8" using assms by simp
  then have len: "length (natToString16 (nat p)) \<le> 8"
    by (rule length_natToString16) simp
  show ?thesis
    using substr_pad [OF len] assms(1)
    by (simp add: numberToPermissionsString_def toString16_nonneg)
qed

text \<open>
  Claim C10. For every integer \<open>p\<close> with \<open>0 \<le> p < 2\<^sup>3\<^sup>2\<close>,
  \<^verbatim>\<open>Utils.numberToPermissionsString(p)\<close> is the string \<^verbatim>\<open>0x\<close> followed by exactly eight
  hexadecimal digits, and \<^verbatim>\<open>Utils.permissionsStringToNumber\<close> maps that string back to
  \<open>p\<close>. The enum member \<^verbatim>\<open>SchemePermissions.None\<close>, which replaces a zero argument, is 0.
\<close>

theorem permissions_roundtrip:
  assumes "0 \<le> p" and "p < 2 ^ 32" and "none = 0"
  shows "(\<exists>ds. numberToPermissionsString none p = ''0x'' @ ds \<and> length ds = 8
              \<and> (\<forall>c \<in> set ds. hexDigitValue c \<noteq> None))
         \<and> permissionsStringToNumber (numberToPermissionsString none p) = Some p"
proof -
  let ?h = "natToString16 (nat p)"
  let ?ds = "replicate (8 - length ?h) CHR ''0'' @ ?h"
  have "nat p < 16 ^ 8" using assms by simp
  then have len: "length ?h \<le> 8"
    by (rule length_natToString16) simp
  have eq: "numberToPermissionsString none p = ''0x'' @ ?ds"
    using assms by (simp add: numberToPermissionsString_eq)
  have l8: "length ?ds = 8" using len by simp
  have zero: "hexDigitValue CHR ''0'' \<noteq> None" by (simp add: hexDigitValue_def)
  have hex: "\<forall>c \<in> set ?ds. hexDigitValue c \<noteq> None"
    using zero hexdigits_natToString16 by (auto split: if_splits)
  have ne: "?ds \<noteq> []" using l8 by auto
  have "Number_of_string (''0x'' @ ?ds) = map_option int (digitsValue 16 0 ?ds)"
    using ne by (rule Number_of_string_hex)
  also have "\<dots> = Some (int (nat p))"
    by (simp add: digitsValue_zeros digitsValue_natToString16)
  finally have "permissionsStringToNumber (''0x'' @ ?ds) = Some p"
    using assms(1) by (simp add: permissionsStringToNumber_def)
  with eq l8 hex show ?thesis by auto
qed

lemma natToString16_9: "natToString16 9 = ''9''"
  by (subst natToString16.simps) (simp add: hexChars_def)

theorem permissions_roundtrip_witness:
  "(0::int) \<le> 9 \<and> (9::int) < 2 ^ 32
   \<and> numberToPermissionsString 0 9 = ''0x00000009''
   \<and> permissionsStringToNumber (numberToPermissionsString 0 9) = Some 9"
proof -
  have s: "numberToPermissionsString 0 9 = ''0x00000009''"
    by (simp add: numberToPermissionsString_def toString16_def natToString16_9 substr_from_end_def)
  show ?thesis
    using permissions_roundtrip [of 9 0] s by simp
qed

section \<open>Properties of ConfigService\<close>


lemma map_of_entries_set_other: "k' \<noteq> k \<Longrightarrow> map_of (entries_set k v es) k' = map_of es k'"
  by (induction es) auto






section \<open>Properties of the wrapper cache\<close>

lemma getCachedContract_setCachedContract:
  "address w \<noteq> [] \<Longrightarrow>
     getCachedContract (setCachedContract name (Some w) cache) name (Some (address w)) = Some w"
  by (simp add: getCachedContract_def setCachedContract_def Let_def)

lemma lookup_hit:
  assumes "cacheContractWrappers st" and "a \<noteq> []"
    and "getCachedContract (contractCache st) name (Some a) = Some w"
  shows "getHydratedWrapper name da getWrapper (Some a) st = (Inr (Some w), st)"
  using assms
  by (simp add: getHydratedWrapper_def begin_lookup_def finish_lookup_def truthy_def)

lemma begin_lookup_miss:
  assumes "cacheContractWrappers st \<longrightarrow> getCachedContract (contractCache st) name (Some a) = None"
    and "a \<noteq> []"
  shows "begin_lookup name da (Some a) st =
           (Awaiting (hydrations st) (cacheContractWrappers st), st\<lparr>hydrations := hydrations st + 1\<rparr>)"
  using assms by (simp add: begin_lookup_def truthy_def)

lemma lookup_miss_resolved:
  assumes "cacheContractWrappers st" and "a \<noteq> []"
    and "getCachedContract (contractCache st) name (Some a) = None"
    and "getWrapper (hydrations st) = Resolved hw"
  shows "getHydratedWrapper name da getWrapper (Some a) st =
           (Inr hw, st\<lparr>hydrations := hydrations st + 1,
                        contractCache := setCachedContract name hw (contractCache st)\<rparr>)"
  using assms by (simp add: getHydratedWrapper_def begin_lookup_miss finish_lookup_def)

lemma lookup_rejected:
  assumes "cacheContractWrappers st \<longrightarrow> getCachedContract (contractCache st) name (Some a) = None"
    and "a \<noteq> []"
    and "getWrapper (hydrations st) = Rejected e"
  shows "getHydratedWrapper name da getWrapper (Some a) st =
           (Inl e, st\<lparr>hydrations := hydrations st + 1\<rparr>)"
  using assms by (simp add: getHydratedWrapper_def begin_lookup_miss finish_lookup_def)

lemma lookup_miss_counts:
  assumes "cacheContractWrappers st \<longrightarrow> getCachedContract (contractCache st) name (Some a) = None"
    and "a \<noteq> []"
  shows "hydrations (snd (getHydratedWrapper name da getWrapper (Some a) st)) = hydrations st + 1"
  using assms
  by (simp add: getHydratedWrapper_def begin_lookup_miss finish_lookup_def split: hydration.splits)

text \<open>
  Claim C2, as amended. While the setting \<^verbatim>\<open>cacheContractWrappers\<close> is on: a lookup for a
  key (name, address) that misses the cache invokes the hydrate function once and, when it
  yields a wrapper at the requested address, stores that wrapper under the key before
  returning it; and every later lookup for the key, in any state where the setting is on and
  the entry is stored, returns that same instance, invokes no hydrate function and leaves
  the state as it is.
\<close>

theorem cached_lookup_when_enabled:
  assumes "cacheContractWrappers st" and "a \<noteq> []"
    and "getCachedContract (contractCache st) name (Some a) = None"
    and "getWrapper (hydrations st) = Resolved (Some w)" and "address w = a"
    and "cacheContractWrappers later"
    and "getCachedContract (contractCache later) name (Some a) = Some w"
  shows "fst (getHydratedWrapper name da getWrapper (Some a) st) = Inr (Some w)
       \<and> hydrations (snd (getHydratedWrapper name da getWrapper (Some a) st)) = hydrations st + 1
       \<and> getCachedContract (contractCache (snd (getHydratedWrapper name da getWrapper (Some a) st)))
            name (Some a) = Some w
       \<and> getHydratedWrapper name da getWrapper' (Some a) later = (Inr (Some w), later)"
proof -
  have m: "getHydratedWrapper name da getWrapper (Some a) st =
           (Inr (Some w), st\<lparr>hydrations := hydrations st + 1,
                        contractCache := setCachedContract name (Some w) (contractCache st)\<rparr>)"
    using assms(1-4) by (rule lookup_miss_resolved)
  have s: "getCachedContract (setCachedContract name (Some w) (contractCache st)) name (Some a) = Some w"
    using getCachedContract_setCachedContract [of w name "contractCache st"] assms(2,5) by simp
  have h: "getHydratedWrapper name da getWrapper' (Some a) later = (Inr (Some w), later)"
    using assms(6) assms(2) assms(7) by (rule lookup_hit)
  show ?thesis using m s h by simp
qed

theorem cached_lookup_when_enabled_witness:
  "fst (getHydratedWrapper ''DaoCreator'' None (fresh_wrapper_at ''0xdc'') (Some ''0xdc'') (initial_state True))
     = Inr (Some \<lparr>address = ''0xdc'', objectId = 0\<rparr>)
   \<and> getHydratedWrapper ''DaoCreator'' None (fresh_wrapper_at ''0xdc'') (Some ''0xdc'')
        (snd (getHydratedWrapper ''DaoCreator'' None (fresh_wrapper_at ''0xdc'') (Some ''0xdc'') (initial_state True)))
     = (Inr (Some \<lparr>address = ''0xdc'', objectId = 0\<rparr>),
        snd (getHydratedWrapper ''DaoCreator'' None (fresh_wrapper_at ''0xdc'') (Some ''0xdc'') (initial_state True)))"
proof -
  let ?w = "\<lparr>address = ''0xdc'', objectId = 0\<rparr>"
  let ?st = "initial_state True"
  let ?later = "snd (getHydratedWrapper ''DaoCreator'' None (fresh_wrapper_at ''0xdc'') (Some ''0xdc'') ?st)"
  have 1: "cacheContractWrappers ?st" by (simp add: initial_state_def)
  have 2: "''0xdc'' \<noteq> []" by simp
  have 3: "getCachedContract (contractCache ?st) ''DaoCreator'' (Some ''0xdc'') = None"
    by (simp add: initial_state_def getCachedContract_def)
  have 4: "fresh_wrapper_at ''0xdc'' (hydrations ?st) = Resolved (Some ?w)"
    by (simp add: initial_state_def fresh_wrapper_at_def)
  have 5: "address ?w = ''0xdc''" by simp
  have l: "?later = \<lparr>contractCache = setCachedContract ''DaoCreator'' (Some ?w) Map.empty,
                      cacheContractWrappers = True, hydrations = 1\<rparr>"
    by (simp add: getHydratedWrapper_def begin_lookup_def finish_lookup_def truthy_def
        getCachedContract_def initial_state_def fresh_wrapper_at_def)
  have 6: "cacheContractWrappers ?later" by (simp add: l)
  have 7: "getCachedContract (contractCache ?later) ''DaoCreator'' (Some ''0xdc'') = Some ?w"
    by (simp add: l getCachedContract_def setCachedContract_def)
  show ?thesis
    using cached_lookup_when_enabled [where st = "?st" and a = "''0xdc''" and name = "''DaoCreator''"
        and getWrapper = "fresh_wrapper_at ''0xdc''" and w = "?w" and later = "?later" and da = None
        and getWrapper' = "fresh_wrapper_at ''0xdc''", OF 1 2 3 4 5 6 7]
    by simp
qed

text \<open>
  The claim as stated fails where the setting is off: nothing is stored, and a second
  lookup for the same key invokes the hydrate function again and returns another instance.
\<close>

theorem cached_lookup_counterexample:
  "successive_lookups ''DaoCreator'' None (fresh_wrapper_at ''0xdc'') (Some ''0xdc'') (initial_state False)
     = (Inr (Some \<lparr>address = ''0xdc'', objectId = 0\<rparr>),
        Inr (Some \<lparr>address = ''0xdc'', objectId = 1\<rparr>),
        \<lparr>contractCache = Map.empty, cacheContractWrappers = False, hydrations = 2\<rparr>)"
  by (simp add: successive_lookups_def getHydratedWrapper_def begin_lookup_def finish_lookup_def
      initial_state_def fresh_wrapper_at_def)


text \<open>
  Claim C5. When the hydrate function fails during a lookup that misses the cache, the
  error is what the lookup returns, the cache is left as it was, and a following lookup
  for the same key invokes the hydrate function again. A failing \<^verbatim>\<open>hydrateFromNew\<close>
  likewise makes \<^verbatim>\<open>new\<close> fail and stores nothing.
\<close>

theorem hydrate_failure_not_cached:
  assumes "cacheContractWrappers st \<longrightarrow> getCachedContract (contractCache st) name (Some a) = None"
    and "a \<noteq> []"
    and "getWrapper (hydrations st) = Rejected e"
  shows "fst (getHydratedWrapper name da getWrapper (Some a) st) = Inl e
       \<and> contractCache (snd (getHydratedWrapper name da getWrapper (Some a) st)) = contractCache st
       \<and> hydrations (snd (getHydratedWrapper name da getWrapper (Some a) st)) = hydrations st + 1
       \<and> hydrations (snd (getHydratedWrapper name da getWrapper (Some a)
                          (snd (getHydratedWrapper name da getWrapper (Some a) st))))
           = hydrations st + 2
       \<and> fst (factory_new name getWrapper st) = Inl e
       \<and> contractCache (snd (factory_new name getWrapper st)) = contractCache st"
proof -
  let ?st1 = "st\<lparr>hydrations := hydrations st + 1\<rparr>"
  have r: "getHydratedWrapper name da getWrapper (Some a) st = (Inl e, ?st1)"
    using assms by (rule lookup_rejected)
  have m: "cacheContractWrappers ?st1 \<longrightarrow> getCachedContract (contractCache ?st1) name (Some a) = None"
    using assms(1) by simp
  have "hydrations (snd (getHydratedWrapper name da getWrapper (Some a) ?st1)) = hydrations ?st1 + 1"
    using m assms(2) by (rule lookup_miss_counts)
  then have again: "hydrations (snd (getHydratedWrapper name da getWrapper (Some a) ?st1)) = hydrations st + 2"
    by simp
  have n: "factory_new name getWrapper st = (Inl e, ?st1)"
    using assms(3) by (simp add: factory_new_def)
  show ?thesis using r again n by simp
qed

theorem hydrate_failure_not_cached_witness:
  "fst (getHydratedWrapper ''UpgradeScheme'' None (fails_first_at ''0xa1'') (Some ''0xa1'') (initial_state True))
     = Inl (Error ''no code at address'')
   \<and> contractCache (snd (getHydratedWrapper ''UpgradeScheme'' None (fails_first_at ''0xa1'') (Some ''0xa1'')
        (initial_state True))) = Map.empty
   \<and> hydrations (snd (getHydratedWrapper ''UpgradeScheme'' None (fails_first_at ''0xa1'') (Some ''0xa1'')
        (snd (getHydratedWrapper ''UpgradeScheme'' None (fails_first_at ''0xa1'') (Some ''0xa1'')
           (initial_state True))))) = 2"
proof -
  let ?st = "initial_state True"
  have 1: "cacheContractWrappers ?st \<longrightarrow>
             getCachedContract (contractCache ?st) ''UpgradeScheme'' (Some ''0xa1'') = None"
    by (simp add: initial_state_def getCachedContract_def)
  have 2: "''0xa1'' \<noteq> []" by simp
  have 3: "fails_first_at ''0xa1'' (hydrations ?st) = Rejected (Error ''no code at address'')"
    by (simp add: initial_state_def fails_first_at_def)
  have c: "contractCache ?st = Map.empty" and h: "hydrations ?st = 0"
    by (simp_all add: initial_state_def)
  show ?thesis
    using hydrate_failure_not_cached [where st = "?st" and a = "''0xa1''" and name = "''UpgradeScheme''"
        and getWrapper = "fails_first_at ''0xa1''" and e = "Error ''no code at address''" and da = None,
        OF 1 2 3] c h
    by simp
qed

text \<open>
  Claim C3, as amended. For a key that is not cached, with the setting on and a hydrate
  function that yields wrappers at the requested address: when the second lookup begins
  after the first has returned, both return the same instance and the hydrate function is
  invoked once; when the second begins before the hydration of the first has completed,
  each lookup invokes the hydrate function (twice in all) and each returns the wrapper of
  its own hydration. The method keeps no record of a hydration in progress.
\<close>

theorem lookups_successive_and_overlapping:
  assumes "cacheContractWrappers st" and "a \<noteq> []"
    and "getCachedContract (contractCache st) name (Some a) = None"
    and "getWrapper (hydrations st) = Resolved (Some w1)" and "address w1 = a"
    and "getWrapper (hydrations st + 1) = Resolved (Some w2)"
  shows "fst (successive_lookups name da getWrapper (Some a) st) = Inr (Some w1)
       \<and> fst (snd (successive_lookups name da getWrapper (Some a) st)) = Inr (Some w1)
       \<and> hydrations (snd (snd (successive_lookups name da getWrapper (Some a) st))) = hydrations st + 1
       \<and> fst (overlapping_lookups name da getWrapper (Some a) st) = Inr (Some w1)
       \<and> fst (snd (overlapping_lookups name da getWrapper (Some a) st)) = Inr (Some w2)
       \<and> hydrations (snd (snd (overlapping_lookups name da getWrapper (Some a) st))) = hydrations st + 2"
proof -
  let ?st1 = "st\<lparr>hydrations := hydrations st + 1,
                   contractCache := setCachedContract name (Some w1) (contractCache st)\<rparr>"
  have first: "getHydratedWrapper name da getWrapper (Some a) st = (Inr (Some w1), ?st1)"
    using assms(1-4) by (rule lookup_miss_resolved)
  have c1: "cacheContractWrappers ?st1" using assms(1) by simp
  have g1: "getCachedContract (contractCache ?st1) name (Some a) = Some w1"
    using getCachedContract_setCachedContract [of w1 name "contractCache st"] assms(2,5) by simp
  have second: "getHydratedWrapper name da getWrapper (Some a) ?st1 = (Inr (Some w1), ?st1)"
    using c1 assms(2) g1 by (rule lookup_hit)
  have succ: "successive_lookups name da getWrapper (Some a) st = (Inr (Some w1), Inr (Some w1), ?st1)"
    by (simp only: successive_lookups_def Let_def first second prod.case)
  let ?b1 = "st\<lparr>hydrations := hydrations st + 1\<rparr>"
  have b1: "begin_lookup name da (Some a) st = (Awaiting (hydrations st) True, ?b1)"
    using begin_lookup_miss [of st name a da] assms(1-3) by simp
  have b2: "begin_lookup name da (Some a) ?b1 = (Awaiting (hydrations st + 1) True, ?b1\<lparr>hydrations := hydrations st + 2\<rparr>)"
    using begin_lookup_miss [of ?b1 name a da] assms(1-3) by simp
  have over: "overlapping_lookups name da getWrapper (Some a) st =
      (Inr (Some w1), Inr (Some w2),
       st\<lparr>hydrations := hydrations st + 2,
          contractCache := setCachedContract name (Some w2) (setCachedContract name (Some w1) (contractCache st))\<rparr>)"
    using assms(4,6) by (simp add: overlapping_lookups_def b1 b2 [simplified] finish_lookup_def)
  show ?thesis using succ over by simp
qed

theorem lookups_successive_and_overlapping_witness:
  "fst (successive_lookups ''DaoCreator'' None (fresh_wrapper_at ''0xdc'') (Some ''0xdc'') (initial_state True))
     = Inr (Some \<lparr>address = ''0xdc'', objectId = 0\<rparr>)
   \<and> fst (snd (successive_lookups ''DaoCreator'' None (fresh_wrapper_at ''0xdc'') (Some ''0xdc'') (initial_state True)))
     = Inr (Some \<lparr>address = ''0xdc'', objectId = 0\<rparr>)
   \<and> hydrations (snd (snd (successive_lookups ''DaoCreator'' None (fresh_wrapper_at ''0xdc'') (Some ''0xdc'')
        (initial_state True)))) = 1"
proof -
  let ?w = "\<lparr>address = ''0xdc'', objectId = 0\<rparr>"
  let ?w2 = "\<lparr>address = ''0xdc'', objectId = 1\<rparr>"
  let ?st = "initial_state True"
  have 1: "cacheContractWrappers ?st" by (simp add: initial_state_def)
  have 2: "''0xdc'' \<noteq> []" by simp
  have 3: "getCachedContract (contractCache ?st) ''DaoCreator'' (Some ''0xdc'') = None"
    by (simp add: initial_state_def getCachedContract_def)
  have 4: "fresh_wrapper_at ''0xdc'' (hydrations ?st) = Resolved (Some ?w)"
    by (simp add: initial_state_def fresh_wrapper_at_def)
  have 5: "address ?w = ''0xdc''" by simp
  have 6: "fresh_wrapper_at ''0xdc'' (hydrations ?st + 1) = Resolved (Some ?w2)"
    by (simp add: initial_state_def fresh_wrapper_at_def)
  have h: "hydrations ?st = 0" by (simp add: initial_state_def)
  show ?thesis
    using lookups_successive_and_overlapping [where st = "?st" and a = "''0xdc''" and name = "''DaoCreator''"
        and getWrapper = "fresh_wrapper_at ''0xdc''" and ?w1.0 = "?w" and ?w2.0 = "?w2" and da = None,
        OF 1 2 3 4 5 6] h
    by simp
qed

text \<open>
  The claim as stated fails: two lookups for one key that both begin before the first
  hydration has completed invoke the hydrate function twice and return two instances.
\<close>

theorem overlapping_lookups_counterexample:
  "overlapping_lookups ''DaoCreator'' None (fresh_wrapper_at ''0xdc'') (Some ''0xdc'') (initial_state True)
     = (Inr (Some \<lparr>address = ''0xdc'', objectId = 0\<rparr>),
        Inr (Some \<lparr>address = ''0xdc'', objectId = 1\<rparr>),
        \<lparr>contractCache =
           setCachedContract ''DaoCreator'' (Some \<lparr>address = ''0xdc'', objectId = 1\<rparr>)
             (setCachedContract ''DaoCreator'' (Some \<lparr>address = ''0xdc'', objectId = 0\<rparr>) Map.empty),
         cacheContractWrappers = True, hydrations = 2\<rparr>)
   \<and> \<lparr>address = ''0xdc'', objectId = 0\<rparr> \<noteq> \<lparr>address = ''0xdc'', objectId = 1\<rparr>"
  by (simp add: overlapping_lookups_def begin_lookup_def finish_lookup_def truthy_def
      getCachedContract_def initial_state_def fresh_wrapper_at_def)

section \<open>Properties of discovery\<close>

lemma map_of_entries_set: "map_of (entries_set k v es) = (map_of es)(k \<mapsto> v)"
  by (induction es) auto

lemma keys_entries_set: "fst ` set (entries_set k v es) = insert k (fst ` set es)"
  by (induction es) auto

lemma distinct_entries_set:
  "distinct (map fst es) \<Longrightarrow> distinct (map fst (entries_set k v es))"
proof (induction es)
  case Nil
  then show ?case by simp
next
  case (Cons e es)
  have "fst ` set (entries_set k v es) = insert k (fst ` set es)" by (rule keys_entries_set)
  with Cons show ?case by auto
qed

text \<open>A run of \<^verbatim>\<open>set\<close> calls, one per entry, on a map.\<close>

lemma fold_set_keys:
  "fst ` set (foldl (\<lambda>m e. entries_set (key e) (val e) m) m es) = fst ` set m \<union> key ` set es"
  by (induction es arbitrary: m) (simp_all add: keys_entries_set)

lemma fold_set_distinct:
  "distinct (map fst m) \<Longrightarrow> distinct (map fst (foldl (\<lambda>m e. entries_set (key e) (val e) m) m es))"
  by (induction es arbitrary: m) (simp_all add: distinct_entries_set)

lemma fold_set_last_write:
  "map_of (foldl (\<lambda>m e. entries_set (key e) (val e) m) m es) k = Some v \<Longrightarrow>
     (\<exists>pre e post. es = pre @ e # post \<and> key e = k \<and> val e = v \<and> (\<forall>e' \<in> set post. key e' \<noteq> k))
     \<or> (map_of m k = Some v \<and> k \<notin> key ` set es)"
proof (induction es arbitrary: m)
  case Nil
  then show ?case by simp
next
  case (Cons x xs)
  let ?m1 = "entries_set (key x) (val x) m"
  from Cons.prems have "map_of (foldl (\<lambda>m e. entries_set (key e) (val e) m) ?m1 xs) k = Some v"
    by simp
  from Cons.IH [OF this] consider
    (later) pre e post where "xs = pre @ e # post" "key e = k" "val e = v" "\<forall>e' \<in> set post. key e' \<noteq> k"
    | (here) "map_of ?m1 k = Some v" "k \<notin> key ` set xs"
    by blast
  then show ?case
  proof cases
    case later
    then have "x # xs = (x # pre) @ e # post" by simp
    with later(2-4) show ?thesis by blast
  next
    case here
    show ?thesis
    proof (cases "key x = k")
      case True
      with here(1) have "val x = v" by (simp add: map_of_entries_set)
      moreover have "x # xs = [] @ x # xs" by simp
      moreover have "\<forall>e' \<in> set xs. key e' \<noteq> k" using here(2) by auto
      ultimately show ?thesis using True by blast
    next
      case False
      with here(1) have "map_of m k = Some v" by (simp add: map_of_entries_set)
      moreover have "k \<notin> key ` set (x # xs)" using here(2) False by auto
      ultimately show ?thesis by blast
    qed
  qed
qed

lemma handleSchemeEvent_array:
  "handleSchemeEvent c fs (map Some es) atm m =
     Inr (foldl (\<lambda>m e. entries_set (arg_scheme e) (schemeInfo_of c fs atm (arg_scheme e)) m) m es)"
  by (induction es arbitrary: m) (simp_all add: schemeInfo_of_def Let_def)

lemma handleConstraintEvent_array:
  "handleConstraintEvent (map Some es) atm m =
     Inr (foldl (\<lambda>m e. entries_set (arg_globalConstraint e) (constraintInfo_of atm e) m) m es)"
  by (induction es arbitrary: m) (simp_all add: constraintInfo_of_def Let_def)


lemma fold_set_values:
  "(\<forall>e \<in> set m. P (fst e) (snd e)) \<Longrightarrow> (\<forall>x \<in> set es. P (key x) (val x)) \<Longrightarrow>
     \<forall>e \<in> set (foldl (\<lambda>m e. entries_set (key e) (val e) m) m es). P (fst e) (snd e)"
proof (induction es arbitrary: m)
  case Nil
  then show ?case by simp
next
  case (Cons x xs)
  have "\<forall>e \<in> set (entries_set (key x) (val x) m). P (fst e) (snd e)"
    using Cons.prems(1) Cons.prems(2) [rule_format, of x]
    by (induction m) auto
  moreover have "\<forall>x \<in> set xs. P (key x) (val x)" using Cons.prems(2) by simp
  ultimately show ?case using Cons.IH by simp
qed

lemma RegisterScheme_logs_set:
  "arg_scheme ` set (RegisterScheme_logs evs) = {a. RegisterScheme a \<in> set evs}"
proof (induction evs)
  case Nil
  then show ?case by simp
next
  case (Cons e evs)
  then show ?case by (cases e) auto
qed

lemma AddGlobalConstraint_logs_set:
  "arg_globalConstraint ` set (AddGlobalConstraint_logs evs) = {a. \<exists>h. AddGlobalConstraint a h \<in> set evs}"
proof (induction evs)
  case Nil
  then show ?case by simp
next
  case (Cons e evs)
  then show ?case by (cases e) auto
qed


lemma getSchemes_all_eq:
  "getSchemes_all aw c fs =
     Returns (filter (\<lambda>scheme. isSchemeRegistered c (info_address scheme))
       (map snd (foldl (\<lambda>m e. entries_set (arg_scheme e)
                           (schemeInfo_of c fs (arcTypesMap_of aw []) (arg_scheme e)) m)
                  [] (RegisterScheme_logs (events c)))))"
  by (simp add: getSchemes_all_def getSchemes_from_def handleSchemeEvent_array)

lemma getConstraints_all_eq:
  "getConstraints_all aw c =
     Returns (filter (\<lambda>gc. isGlobalConstraintRegistered c (gc_address gc))
       (map snd (foldl (\<lambda>m e. entries_set (arg_globalConstraint e)
                           (constraintInfo_of (arcTypesMap_of aw []) e) m)
                  [] (AddGlobalConstraint_logs (events c)))))"
  by (simp add: getConstraints_all_def getConstraints_from_def handleConstraintEvent_array)

text \<open>Facts about a map whose values carry their own key.\<close>

lemma keyed_values:
  assumes "\<forall>e \<in> set m. f (snd e) = fst e" and "distinct (map fst m)"
  shows "distinct (map f (filter P (map snd m)))"
    and "set (map f (filter P (map snd m))) = {k \<in> fst ` set m. \<exists>v. (k, v) \<in> set m \<and> P v}"
proof -
  have eq: "map f (map snd m) = map fst m" using assms(1) by (induction m) auto
  have "distinct (map f (map snd m))" unfolding eq by (rule assms(2))
  then show "distinct (map f (filter P (map snd m)))" by (rule distinct_map_filter)
  show "set (map f (filter P (map snd m))) = {k \<in> fst ` set m. \<exists>v. (k, v) \<in> set m \<and> P v}"
    using assms(1) by (auto simp: image_iff) force+
qed


lemma registeredSchemes_result:
  fixes c :: Controller and fs :: "string \<Rightarrow> 'p" and aw :: "(string \<times> Address) list"
  defines "atm \<equiv> arcTypesMap_of aw []"
  defines "M \<equiv> foldl (\<lambda>m e. entries_set (arg_scheme e) (schemeInfo_of c fs atm (arg_scheme e)) m)
                  [] (RegisterScheme_logs (events c))"
  defines "registeredSchemes \<equiv> filter (\<lambda>s. isSchemeRegistered c (info_address s)) (map snd M)"
  shows "distinct (map info_address registeredSchemes)"
    and "set (map info_address registeredSchemes) = {a. RegisterScheme a \<in> set (events c) \<and> isSchemeRegistered c a}"
    and "\<forall>s \<in> set registeredSchemes. s = schemeInfo_of c fs atm (info_address s)"
proof -
  have keys: "fst ` set M = {a. RegisterScheme a \<in> set (events c)}"
    unfolding M_def by (simp add: fold_set_keys RegisterScheme_logs_set)
  have dist: "distinct (map fst M)"
    unfolding M_def by (rule fold_set_distinct) simp
  have vals: "\<forall>e \<in> set M. snd e = schemeInfo_of c fs atm (fst e)"
    unfolding M_def
    by (rule fold_set_values [where P = "\<lambda>k v. v = schemeInfo_of c fs atm k"]) simp_all
  have own: "\<forall>e \<in> set M. info_address (snd e) = fst e"
    using vals by (simp add: schemeInfo_of_def)
  show "distinct (map info_address registeredSchemes)"
    unfolding registeredSchemes_def using own dist by (rule keyed_values(1))
  have "set (map info_address registeredSchemes)
          = {k \<in> fst ` set M. \<exists>v. (k, v) \<in> set M \<and> isSchemeRegistered c (info_address v)}"
    unfolding registeredSchemes_def using own dist by (rule keyed_values(2))
  also have "\<dots> = {k \<in> fst ` set M. isSchemeRegistered c k}"
    using own by force
  finally show "set (map info_address registeredSchemes) = {a. RegisterScheme a \<in> set (events c) \<and> isSchemeRegistered c a}"
    using keys by auto
  show "\<forall>s \<in> set registeredSchemes. s = schemeInfo_of c fs atm (info_address s)"
  proof
    fix s assume "s \<in> set registeredSchemes"
    then obtain e where e: "e \<in> set M" "s = snd e" unfolding registeredSchemes_def by auto
    with vals own show "s = schemeInfo_of c fs atm (info_address s)" by simp
  qed
qed

lemma registeredConstraints_result:
  fixes c :: Controller and aw :: "(string \<times> Address) list"
  defines "atm \<equiv> arcTypesMap_of aw []"
  defines "logs \<equiv> AddGlobalConstraint_logs (events c)"
  defines "M \<equiv> foldl (\<lambda>m e. entries_set (arg_globalConstraint e) (constraintInfo_of atm e) m) [] logs"
  defines "registeredConstraints \<equiv> filter (\<lambda>gc. isGlobalConstraintRegistered c (gc_address gc)) (map snd M)"
  shows "distinct (map gc_address registeredConstraints)"
    and "set (map gc_address registeredConstraints)
           = {a. (\<exists>h. AddGlobalConstraint a h \<in> set (events c)) \<and> isGlobalConstraintRegistered c a}"
    and "\<forall>gc \<in> set registeredConstraints. \<exists>pre entry post.
           logs = pre @ entry # post \<and> gc = constraintInfo_of atm entry
           \<and> (\<forall>later \<in> set post. arg_globalConstraint later \<noteq> gc_address gc)"
proof -
  have keys: "fst ` set M = {a. \<exists>h. AddGlobalConstraint a h \<in> set (events c)}"
    unfolding M_def logs_def by (simp add: fold_set_keys AddGlobalConstraint_logs_set)
  have dist: "distinct (map fst M)"
    unfolding M_def by (rule fold_set_distinct) simp
  have own: "\<forall>e \<in> set M. gc_address (snd e) = fst e"
    unfolding M_def
    by (rule fold_set_values [where P = "\<lambda>k v. gc_address v = k"]) (simp_all add: constraintInfo_of_def)
  show "distinct (map gc_address registeredConstraints)"
    unfolding registeredConstraints_def using own dist by (rule keyed_values(1))
  have "set (map gc_address registeredConstraints)
          = {k \<in> fst ` set M. \<exists>v. (k, v) \<in> set M \<and> isGlobalConstraintRegistered c (gc_address v)}"
    unfolding registeredConstraints_def using own dist by (rule keyed_values(2))
  also have "\<dots> = {k \<in> fst ` set M. isGlobalConstraintRegistered c k}"
    using own by force
  finally show "set (map gc_address registeredConstraints)
           = {a. (\<exists>h. AddGlobalConstraint a h \<in> set (events c)) \<and> isGlobalConstraintRegistered c a}"
    using keys by auto
  show "\<forall>gc \<in> set registeredConstraints. \<exists>pre entry post.
           logs = pre @ entry # post \<and> gc = constraintInfo_of atm entry
           \<and> (\<forall>later \<in> set post. arg_globalConstraint later \<noteq> gc_address gc)"
  proof
    fix gc assume "gc \<in> set registeredConstraints"
    then obtain e where e: "e \<in> set M" "gc = snd e" unfolding registeredConstraints_def by auto
    with own have k: "fst e = gc_address gc" by simp
    have "e = (gc_address gc, gc)" using e(2) k by (simp add: prod_eq_iff)
    with e(1) have "(gc_address gc, gc) \<in> set M" by simp
    with dist have "map_of M (gc_address gc) = Some gc" by simp
    from fold_set_last_write [OF this [unfolded M_def]]
    obtain pre entry post where
      "logs = pre @ entry # post" "arg_globalConstraint entry = gc_address gc"
      "constraintInfo_of atm entry = gc" "\<forall>e' \<in> set post. arg_globalConstraint e' \<noteq> gc_address gc"
      by auto
    then show "\<exists>pre entry post.
           logs = pre @ entry # post \<and> gc = constraintInfo_of atm entry
           \<and> (\<forall>later \<in> set post. arg_globalConstraint later \<noteq> gc_address gc)"
      by blast
  qed
qed


text \<open>
  Claim C4. Discovery (\<^verbatim>\<open>_getSchemes\<close>, \<^verbatim>\<open>_getConstraints\<close>) folds the fetched log, oldest
  entry first, into a map keyed by address in which a later entry for an address replaces
  the earlier one, and then keeps the addresses whose present registration state, read
  from the controller, is registered. So the result has each such address once: the scheme
  addresses of the log that are registered now, and for a global constraint the parameters
  hash of the last log entry for its address. For the log register(A), register(B),
  deregister(A), where A is no longer registered and B is, the result has B and not A.
\<close>

theorem discovery_folds_log_then_filters_live:
  "\<exists>registeredSchemes registeredConstraints.
      getSchemes_all allWrappers controller fromString = Returns registeredSchemes
    \<and> distinct (map info_address registeredSchemes)
    \<and> set (map info_address registeredSchemes)
          = {a. RegisterScheme a \<in> set (events controller) \<and> isSchemeRegistered controller a}
    \<and> (\<forall>s \<in> set registeredSchemes.
          s = schemeInfo_of controller fromString (arcTypesMap_of allWrappers []) (info_address s))
    \<and> getConstraints_all allWrappers controller = Returns registeredConstraints
    \<and> distinct (map gc_address registeredConstraints)
    \<and> set (map gc_address registeredConstraints)
          = {a. (\<exists>h. AddGlobalConstraint a h \<in> set (events controller))
                \<and> isGlobalConstraintRegistered controller a}
    \<and> (\<forall>gc \<in> set registeredConstraints. \<exists>pre entry post.
          AddGlobalConstraint_logs (events controller) = pre @ entry # post
          \<and> gc = constraintInfo_of (arcTypesMap_of allWrappers []) entry
          \<and> (\<forall>later \<in> set post. arg_globalConstraint later \<noteq> gc_address gc))
    \<and> (events controller = [RegisterScheme A, RegisterScheme B, UnregisterScheme A]
          \<and> \<not> isSchemeRegistered controller A \<and> isSchemeRegistered controller B
         \<longrightarrow> B \<in> set (map info_address registeredSchemes) \<and> A \<notin> set (map info_address registeredSchemes))"
proof -
  let ?registeredSchemes = "filter (\<lambda>scheme. isSchemeRegistered controller (info_address scheme))
       (map snd (foldl (\<lambda>m e. entries_set (arg_scheme e)
                           (schemeInfo_of controller fromString (arcTypesMap_of allWrappers []) (arg_scheme e)) m)
                  [] (RegisterScheme_logs (events controller))))"
  let ?registeredConstraints = "filter (\<lambda>gc. isGlobalConstraintRegistered controller (gc_address gc))
       (map snd (foldl (\<lambda>m e. entries_set (arg_globalConstraint e)
                           (constraintInfo_of (arcTypesMap_of allWrappers []) e) m)
                  [] (AddGlobalConstraint_logs (events controller))))"
  have s0: "getSchemes_all allWrappers controller fromString = Returns ?registeredSchemes"
    by (rule getSchemes_all_eq)
  have s1: "distinct (map info_address ?registeredSchemes)"
    by (rule registeredSchemes_result(1))
  have s2: "set (map info_address ?registeredSchemes)
          = {a. RegisterScheme a \<in> set (events controller) \<and> isSchemeRegistered controller a}"
    by (rule registeredSchemes_result(2))
  have s3: "\<forall>s \<in> set ?registeredSchemes.
          s = schemeInfo_of controller fromString (arcTypesMap_of allWrappers []) (info_address s)"
    by (rule registeredSchemes_result(3))
  have c0: "getConstraints_all allWrappers controller = Returns ?registeredConstraints"
    by (rule getConstraints_all_eq)
  have c1: "distinct (map gc_address ?registeredConstraints)"
    by (rule registeredConstraints_result(1))
  have c2: "set (map gc_address ?registeredConstraints)
          = {a. (\<exists>h. AddGlobalConstraint a h \<in> set (events controller))
                \<and> isGlobalConstraintRegistered controller a}"
    by (rule registeredConstraints_result(2))
  have c3: "\<forall>gc \<in> set ?registeredConstraints. \<exists>pre entry post.
          AddGlobalConstraint_logs (events controller) = pre @ entry # post
          \<and> gc = constraintInfo_of (arcTypesMap_of allWrappers []) entry
          \<and> (\<forall>later \<in> set post. arg_globalConstraint later \<noteq> gc_address gc)"
    by (rule registeredConstraints_result(3))
  have ex: "events controller = [RegisterScheme A, RegisterScheme B, UnregisterScheme A]
          \<and> \<not> isSchemeRegistered controller A \<and> isSchemeRegistered controller B
         \<longrightarrow> B \<in> set (map info_address ?registeredSchemes) \<and> A \<notin> set (map info_address ?registeredSchemes)"
    unfolding s2 by simp
  from s0 s1 s2 s3 c0 c1 c2 c3 ex show ?thesis by blast
qed

theorem discovery_folds_log_then_filters_live_witness:
  "getSchemes_all [(''SchemeRegistrar'', ''0xB'')] example_controller permissionsStringToNumber
     = Returns [\<lparr>info_address = ''0xB'', info_name = Some ''SchemeRegistrar'', info_permissions = Some 1\<rparr>]
   \<and> getConstraints_all [(''SchemeRegistrar'', ''0xB'')] example_controller = Returns []
   \<and> (\<exists>registeredSchemes. getSchemes_all [(''SchemeRegistrar'', ''0xB'')] example_controller permissionsStringToNumber
          = Returns registeredSchemes
        \<and> ''0xB'' \<in> set (map info_address registeredSchemes) \<and> ''0xA'' \<notin> set (map info_address registeredSchemes))"
proof -
  have p: "permissionsStringToNumber ''0x00000001'' = Some 1"
    by (simp add: permissionsStringToNumber_def Number_of_string_def hexDigitValue_def)
  have e: "events example_controller = [RegisterScheme ''0xA'', RegisterScheme ''0xB'', UnregisterScheme ''0xA'']
         \<and> \<not> isSchemeRegistered example_controller ''0xA'' \<and> isSchemeRegistered example_controller ''0xB''"
    by (simp add: example_controller_def)
  have s: "getSchemes_all [(''SchemeRegistrar'', ''0xB'')] example_controller permissionsStringToNumber
     = Returns [\<lparr>info_address = ''0xB'', info_name = Some ''SchemeRegistrar'', info_permissions = Some 1\<rparr>]"
    by (simp add: getSchemes_all_def getSchemes_from_def example_controller_def p Let_def)
  have c: "getConstraints_all [(''SchemeRegistrar'', ''0xB'')] example_controller = Returns []"
    by (simp add: getConstraints_all_def getConstraints_from_def example_controller_def)
  from discovery_folds_log_then_filters_live
    [of "[(''SchemeRegistrar'', ''0xB'')]" example_controller permissionsStringToNumber "''0xA''" "''0xB''"]
  obtain registeredSchemes where
    "getSchemes_all [(''SchemeRegistrar'', ''0xB'')] example_controller permissionsStringToNumber = Returns registeredSchemes"
    "events example_controller = [RegisterScheme ''0xA'', RegisterScheme ''0xB'', UnregisterScheme ''0xA'']
          \<and> \<not> isSchemeRegistered example_controller ''0xA'' \<and> isSchemeRegistered example_controller ''0xB''
         \<longrightarrow> ''0xB'' \<in> set (map info_address registeredSchemes) \<and> ''0xA'' \<notin> set (map info_address registeredSchemes)"
    by blast
  with e s c show ?thesis by blast
qed

text \<open>
  Claim C6. Discovery on a controller with no events returns the empty list; it neither
  throws nor stays unsettled.
\<close>

theorem discovery_empty_history:
  assumes "events controller = []"
  shows "getSchemes_all allWrappers controller fromString = Returns []
       \<and> getSchemes allWrappers controller fromString name = Returns []
       \<and> getConstraints_all allWrappers controller = Returns []"
  using assms
  by (simp add: getSchemes_def getSchemes_all_def getSchemes_from_def
      getConstraints_all_def getConstraints_from_def)

theorem discovery_empty_history_witness:
  "events new_controller = []
   \<and> getSchemes_all [(''SchemeRegistrar'', ''0xB'')] new_controller permissionsStringToNumber = Returns []
   \<and> getSchemes [(''SchemeRegistrar'', ''0xB'')] new_controller permissionsStringToNumber (Some ''SchemeRegistrar'')
       = Returns []
   \<and> getConstraints_all [(''SchemeRegistrar'', ''0xB'')] new_controller = Returns []"
proof -
  have h: "events new_controller = []" by (simp add: new_controller_def)
  show ?thesis
    using h discovery_empty_history [OF h, of "[(''SchemeRegistrar'', ''0xB'')]" permissionsStringToNumber
        "Some ''SchemeRegistrar''"]
    by simp
qed

section \<open>Properties of DAO.new\<close>

lemma ensureSolidityContract_actions:
  "ensureSolidityContract rc f = (r, f', acts) \<Longrightarrow>
     solidityContractName f' = solidityContractName f
     \<and> (acts = [] \<or> acts = [RequireContract (solidityContractName f)])"
  by (auto simp: ensureSolidityContract_def split: option.splits sum.splits)

lemma factory_at_actions:
  assumes "factory_at rc hy f a st = (r, f', st', acts)"
  shows "\<forall>x \<in> set acts. x = RequireContract (solidityContractName f) \<or> x = Hydrate (solidityContractName f) a"
proof -
  obtain r0 f0 acts0 where e: "ensureSolidityContract rc f = (r0, f0, acts0)"
    by (cases "ensureSolidityContract rc f") auto
  from ensureSolidityContract_actions [OF e]
  have n: "solidityContractName f0 = solidityContractName f"
    and a0: "acts0 = [] \<or> acts0 = [RequireContract (solidityContractName f)]" by auto
  show ?thesis
  proof (cases r0)
    case (Inl err)
    with assms e have "acts = acts0" by (simp add: factory_at_def)
    with a0 show ?thesis by auto
  next
    case (Inr c)
    with assms e n have "acts = acts0 \<or> acts = acts0 @ [Hydrate (solidityContractName f) a]"
      by (auto simp: factory_at_def Let_def split: prod.splits if_splits)
    with a0 show ?thesis by auto
  qed
qed

lemma DAO_new_daoCreator_actions:
  assumes "DAO_new_daoCreator env rc hy f opts st = (r, f', st', acts)"
  shows "(\<forall>x \<in> set acts. x = RequireContract (solidityContractName f)
                        \<or> x = Hydrate (solidityContractName f) (the (daoCreatorAddress opts)))
       \<and> (\<not> truthy (daoCreatorAddress opts) \<longrightarrow> acts = [])"
proof (cases "daoCreatorAddress opts")
  case None
  with assms show ?thesis by (simp add: DAO_new_daoCreator_def truthy_def)
next
  case (Some a)
  show ?thesis
  proof (cases "a = []")
    case True
    with Some assms show ?thesis by (simp add: DAO_new_daoCreator_def truthy_def)
  next
    case False
    with Some assms have "factory_at rc hy f a st = (r, f', st', acts)"
      by (simp add: DAO_new_daoCreator_def)
    from factory_at_actions [OF this] Some False show ?thesis by (simp add: truthy_def)
  qed
qed

lemma DAO_new_steps_actions:
  "\<exists>rest. snd (DAO_new_steps env opts) =
            PublishKickoffEvent ''DAO.new'' opts
              (forgeOrgTransactionsCount env opts + setSchemesTransactionsCount env opts) # rest
        \<and> (\<forall>x \<in> set rest. \<not> is_kickoff x)"
  by (simp add: DAO_new_steps_def Let_def split: sum.splits)


lemma DAO_new_actions:
  "\<exists>pre. (\<forall>x \<in> set pre. x = RequireContract (solidityContractName f)
                         \<or> x = Hydrate (solidityContractName f) (the (daoCreatorAddress opts)))
        \<and> (\<not> truthy (daoCreatorAddress opts) \<longrightarrow> pre = [])
        \<and> (snd (DAO_new env rc hy f opts st) = pre
             \<or> (\<exists>rest. snd (DAO_new env rc hy f opts st) =
                   pre @ PublishKickoffEvent ''DAO.new'' opts
                     (forgeOrgTransactionsCount env opts + setSchemesTransactionsCount env opts) # rest
                  \<and> (\<forall>x \<in> set rest. \<not> is_kickoff x)))"
proof -
  obtain r f' st' pre where c: "DAO_new_daoCreator env rc hy f opts st = (r, f', st', pre)"
    by (cases "DAO_new_daoCreator env rc hy f opts st") auto
  from DAO_new_daoCreator_actions [OF c]
  have p: "\<forall>x \<in> set pre. x = RequireContract (solidityContractName f)
                         \<or> x = Hydrate (solidityContractName f) (the (daoCreatorAddress opts))"
    and q: "\<not> truthy (daoCreatorAddress opts) \<longrightarrow> pre = []" by auto
  obtain rest where k: "snd (DAO_new_steps env opts) =
            PublishKickoffEvent ''DAO.new'' opts
              (forgeOrgTransactionsCount env opts + setSchemesTransactionsCount env opts) # rest"
    and nk: "\<forall>x \<in> set rest. \<not> is_kickoff x"
    using DAO_new_steps_actions [of env opts] by blast
  have "snd (DAO_new env rc hy f opts st) = pre
      \<or> snd (DAO_new env rc hy f opts st) = pre @ snd (DAO_new_steps env opts)"
    using c by (auto simp: DAO_new_def Let_def split: sum.splits option.splits prod.splits)
  with k nk have "snd (DAO_new env rc hy f opts st) = pre
             \<or> (\<exists>rest. snd (DAO_new env rc hy f opts st) =
                   pre @ PublishKickoffEvent ''DAO.new'' opts
                     (forgeOrgTransactionsCount env opts + setSchemesTransactionsCount env opts) # rest
                  \<and> (\<forall>x \<in> set rest. \<not> is_kickoff x))"
    by auto
  with p q show ?thesis by blast
qed

text \<open>
  Claim C7, as amended. In \<^verbatim>\<open>DAO.new\<close> the count passed to \<^verbatim>\<open>publishKickoffEvent\<close> for
  the kickoff notification is \<^verbatim>\<open>forgeOrgTransactionsCount(options)\<close> +
  \<^verbatim>\<open>setSchemesTransactionsCount(options)\<close>, and the kickoff is published before any
  transaction of the operation is sent: whenever a transaction is sent the kickoff has been
  published before it. The only network access that can come before the kickoff is that of
  \<^verbatim>\<open>DaoCreatorFactory.at\<close> (loading the contract, hydrating the wrapper), made when
  \<^verbatim>\<open>options.daoCreatorAddress\<close> is given; without it, nothing goes to the network before
  the kickoff.
\<close>

theorem kickoff_count_before_transactions:
  "(\<forall>x \<in> set (snd (DAO_new env rc hy f opts st)).
       is_kickoff x \<longrightarrow>
         x = PublishKickoffEvent ''DAO.new'' opts
               (forgeOrgTransactionsCount env opts + setSchemesTransactionsCount env opts))
   \<and> (\<forall>x \<in> set (takeWhile (\<lambda>x. \<not> is_kickoff x) (snd (DAO_new env rc hy f opts st))).
          \<not> sends_transaction x
          \<and> (is_network_call x \<longrightarrow>
                truthy (daoCreatorAddress opts)
                \<and> (x = RequireContract (solidityContractName f)
                     \<or> x = Hydrate (solidityContractName f) (the (daoCreatorAddress opts)))))
   \<and> ((\<exists>x \<in> set (snd (DAO_new env rc hy f opts st)). sends_transaction x)
        \<longrightarrow> (\<exists>x \<in> set (snd (DAO_new env rc hy f opts st)). is_kickoff x))"
proof -
  let ?acts = "snd (DAO_new env rc hy f opts st)"
  let ?k = "PublishKickoffEvent ''DAO.new'' opts
              (forgeOrgTransactionsCount env opts + setSchemesTransactionsCount env opts)"
  obtain pre where
    p: "\<forall>x \<in> set pre. x = RequireContract (solidityContractName f)
                         \<or> x = Hydrate (solidityContractName f) (the (daoCreatorAddress opts))"
    and q: "\<not> truthy (daoCreatorAddress opts) \<longrightarrow> pre = []"
    and s: "?acts = pre \<or> (\<exists>rest. ?acts = pre @ ?k # rest \<and> (\<forall>x \<in> set rest. \<not> is_kickoff x))"
    using DAO_new_actions [of f opts env rc hy st] by blast
  have pk: "\<forall>x \<in> set pre. \<not> is_kickoff x" using p by auto
  have ps: "\<forall>x \<in> set pre. \<not> sends_transaction x" using p by auto
  have tw: "takeWhile (\<lambda>x. \<not> is_kickoff x) ?acts = pre"
  proof -
    from s show ?thesis
    proof
      assume "?acts = pre"
      with pk show ?thesis by simp
    next
      assume "\<exists>rest. ?acts = pre @ ?k # rest \<and> (\<forall>x \<in> set rest. \<not> is_kickoff x)"
      then obtain rest where "?acts = pre @ ?k # rest" by blast
      with pk show ?thesis by (simp add: takeWhile_append2)
    qed
  qed
  have 1: "\<forall>x \<in> set ?acts. is_kickoff x \<longrightarrow> x = ?k"
    using s pk by auto
  have 2: "\<forall>x \<in> set (takeWhile (\<lambda>x. \<not> is_kickoff x) ?acts).
          \<not> sends_transaction x
          \<and> (is_network_call x \<longrightarrow>
                truthy (daoCreatorAddress opts)
                \<and> (x = RequireContract (solidityContractName f)
                     \<or> x = Hydrate (solidityContractName f) (the (daoCreatorAddress opts))))"
    unfolding tw using p q ps by auto
  have 3: "(\<exists>x \<in> set ?acts. sends_transaction x) \<longrightarrow> (\<exists>x \<in> set ?acts. is_kickoff x)"
    using s ps by auto
  from 1 2 3 show ?thesis by blast
qed

lemma DAO_new_two_schemes:
  "DAO_new example_env contract_loads fresh_wrapper_at loaded_factory two_schemes (initial_state True)
     = (Returns (Some ''0xaa''),
        [PublishKickoffEvent ''DAO.new'' two_schemes 6, NewTxEventContext ''DAO.new'',
         SendForgeOrg (two_schemes\<lparr>txEventStack := Some ''DAO.new''\<rparr>),
         SendSetSchemes ''0xaa'' (two_schemes\<lparr>txEventStack := Some ''DAO.new''\<rparr>),
         ReadDao ''0xaa''])"
  by (simp add: DAO_new_def DAO_new_daoCreator_def DAO_new_steps_def example_env_def two_schemes_def
      truthy_def Let_def)

theorem kickoff_count_before_transactions_witness:
  "snd (DAO_new example_env contract_loads fresh_wrapper_at loaded_factory two_schemes (initial_state True))
     = [PublishKickoffEvent ''DAO.new'' two_schemes 6, NewTxEventContext ''DAO.new'',
        SendForgeOrg (two_schemes\<lparr>txEventStack := Some ''DAO.new''\<rparr>),
        SendSetSchemes ''0xaa'' (two_schemes\<lparr>txEventStack := Some ''DAO.new''\<rparr>),
        ReadDao ''0xaa'']
   \<and> forgeOrgTransactionsCount example_env two_schemes + setSchemesTransactionsCount example_env two_schemes = 6
   \<and> (\<exists>x \<in> set (snd (DAO_new example_env contract_loads fresh_wrapper_at loaded_factory two_schemes
                         (initial_state True))). is_kickoff x)"
proof -
  let ?acts = "snd (DAO_new example_env contract_loads fresh_wrapper_at loaded_factory two_schemes
                 (initial_state True))"
  have a: "?acts = [PublishKickoffEvent ''DAO.new'' two_schemes 6, NewTxEventContext ''DAO.new'',
        SendForgeOrg (two_schemes\<lparr>txEventStack := Some ''DAO.new''\<rparr>),
        SendSetSchemes ''0xaa'' (two_schemes\<lparr>txEventStack := Some ''DAO.new''\<rparr>),
        ReadDao ''0xaa'']"
    by (simp add: DAO_new_two_schemes)
  have n: "forgeOrgTransactionsCount example_env two_schemes
             + setSchemesTransactionsCount example_env two_schemes = 6"
    by (simp add: example_env_def two_schemes_def)
  have t: "\<exists>x \<in> set ?acts. sends_transaction x" unfolding a by simp
  from kickoff_count_before_transactions
    [of example_env contract_loads fresh_wrapper_at loaded_factory two_schemes "initial_state True"] t
  have "\<exists>x \<in> set ?acts. is_kickoff x" by blast
  with a n show ?thesis by blast
qed

text \<open>
  The claim as stated fails when \<^verbatim>\<open>options.daoCreatorAddress\<close> is given and the wrapper is
  not cached: \<^verbatim>\<open>DaoCreatorFactory.at\<close> hydrates it from the chain before the count is
  computed and the kickoff published.
\<close>

theorem kickoff_after_network_counterexample:
  "snd (DAO_new example_env contract_loads fresh_wrapper_at loaded_factory two_schemes_other_creator
          (initial_state True))
     = [Hydrate ''DaoCreator'' ''0xdc'',
        PublishKickoffEvent ''DAO.new'' two_schemes_other_creator 6, NewTxEventContext ''DAO.new'',
        SendForgeOrg (two_schemes_other_creator\<lparr>txEventStack := Some ''DAO.new''\<rparr>),
        SendSetSchemes ''0xaa'' (two_schemes_other_creator\<lparr>txEventStack := Some ''DAO.new''\<rparr>),
        ReadDao ''0xaa'']
   \<and> is_network_call (Hydrate ''DaoCreator'' ''0xdc'')"
  by (simp add: DAO_new_def DAO_new_daoCreator_def DAO_new_steps_def example_env_def
      two_schemes_other_creator_def truthy_def Let_def factory_at_def ensureSolidityContract_def
      loaded_factory_def getHydratedWrapper_def begin_lookup_def finish_lookup_def
      getCachedContract_def initial_state_def fresh_wrapper_at_def)

section \<open>Properties of the notifications of DAO.new\<close>





section \<open>Properties of the directory of deployed wrappers\<close>





end
